theory Spec2Isabelle
  imports Complex_Main "HOL-Library.Word"
begin

unbundle bit_operations_syntax

section \<open>The Monte Carlo compound simulator (\<open>simulate-monte-carlo.ts\<close>)\<close>

text \<open>
  The engine is the TypeScript function \<open>simulateMonteCarlo\<close>. Its numbers are IEEE
  doubles; here they are real numbers, so \<open>Math.exp\<close>, \<open>Math.log\<close>, \<open>Math.sqrt\<close>,
  \<open>Math.cos\<close> and \<open>Math.pow\<close> are \<open>exp\<close>, \<open>ln\<close>, \<open>sqrt\<close>, \<open>cos\<close> and \<open>powr\<close>, and
  neither rounding error nor NaN and the infinities exist. The three year counts are
  natural numbers (the interface documents them as integers \<open>\<ge> 0\<close>). The generator's
  32-bit integer arithmetic is exact, on \<open>32 word\<close>.

  The typed arrays (\<open>Float64Array\<close> of length \<open>NUM_SIMULATIONS\<close>) are lists of that
  length (\<open>wf_run_years\<close> and \<open>wf_run_months\<close> below), and the code reads them at indices
  below \<open>NUM_SIMULATIONS\<close> only, so no read is out of range.
\<close>

subsection \<open>Constants\<close>

definition NUM_SIMULATIONS :: nat where
  "NUM_SIMULATIONS = 5000"

definition SEED :: "32 word" where
  "SEED = 42"

text \<open>
  Modelled from the spec: the constant \<open>TAX_RATE\<close> is imported from \<open>./constants\<close>,
  a module that is not among the sources; the specification gives it as 20.315 percent.
\<close>

definition TAX_RATE :: real where
  "TAX_RATE = 20315 / 100000"

definition NUM_MAIN_BINS :: nat where
  "NUM_MAIN_BINS = 10"

definition MAX_TAIL_BINS :: nat where
  "MAX_TAIL_BINS = 5"

subsection \<open>The deterministic generator\<close>

text \<open>
  \<open>mulberry32\<close> returns a closure over the 32-bit state \<open>s\<close>; one call of the closure is
  \<open>mulberry32_next\<close>, from the state to the deviate and the new state. \<open>| 0\<close> and
  \<open>Math.imul\<close> wrap at 32 bits, \<open>>>>\<close> is the logical shift, \<open>>>> 0\<close> reads unsigned.
\<close>

definition mulberry32 :: "32 word \<Rightarrow> 32 word" where
  "mulberry32 seed = seed"

definition mulberry32_next :: "32 word \<Rightarrow> real \<times> 32 word" where
  "mulberry32_next s0 =
     (let s = s0 + 0x6d2b79f5;
          t = (s XOR drop_bit 15 s) * (1 OR s);
          t2 = (t + (t XOR drop_bit 7 t) * (61 OR t)) XOR t
      in (real (unat (t2 XOR drop_bit 14 t2)) / 4294967296, s))"

text \<open>Box-Muller; \<open>u1 || 1e-10\<close> replaces a zero deviate.\<close>

definition normalRandom :: "32 word \<Rightarrow> real \<times> 32 word" where
  "normalRandom s =
     (let (u1, s1) = mulberry32_next s;
          (u2, s2) = mulberry32_next s1
      in (sqrt (- 2 * ln (if u1 = 0 then 1 / 10 ^ 10 else u1)) * cos (2 * pi * u2), s2))"

subsection \<open>Input and output\<close>

text \<open>An optional field of the interface is an \<open>option\<close>: \<open>None\<close> is the absent field.\<close>

record MonteCarloInput =
  initialAmount :: real
  monthlyContribution :: real
  annualReturnRate :: real
  volatility :: real
  inflationRate :: real
  contributionYears :: nat
  withdrawalStartYear :: nat
  withdrawalYears :: nat
  taxFree :: "bool option"
  monthlyWithdrawal :: "real option"
  annualWithdrawalRate :: "real option"
  expenseRatio :: "real option"
  inflationAdjustedWithdrawal :: "bool option"
  monthlyPensionIncome :: "real option"

record MonteCarloYearData =
  year :: nat
  p10 :: real
  p25 :: real
  p50 :: real
  p75 :: real
  p90 :: real
  principal :: real
  isContributing :: bool
  isWithdrawing :: bool
  depletionRate :: "real option"
  medianYearlyWithdrawal :: "real option"

record DistributionBin =
  rangeEnd :: real
  count :: nat
  isDepleted :: bool

record MonteCarloResult =
  yearlyData :: "MonteCarloYearData list"
  failureProbability :: real
  depletionProbability :: real
  distribution :: "DistributionBin list"

subsection \<open>Values fixed at the start of a call\<close>

text \<open>The defaults of the destructured parameters.\<close>

definition monthlyWithdrawal_d :: "MonteCarloInput \<Rightarrow> real" where
  "monthlyWithdrawal_d cfg = (case monthlyWithdrawal cfg of None \<Rightarrow> 0 | Some w \<Rightarrow> w)"

definition expenseRatio_d :: "MonteCarloInput \<Rightarrow> real" where
  "expenseRatio_d cfg = (case expenseRatio cfg of None \<Rightarrow> 0 | Some e \<Rightarrow> e)"

definition inflationAdjustedWithdrawal_d :: "MonteCarloInput \<Rightarrow> bool" where
  "inflationAdjustedWithdrawal_d cfg =
     (case inflationAdjustedWithdrawal cfg of None \<Rightarrow> False | Some b \<Rightarrow> b)"

definition monthlyPensionIncome_d :: "MonteCarloInput \<Rightarrow> real" where
  "monthlyPensionIncome_d cfg = (case monthlyPensionIncome cfg of None \<Rightarrow> 0 | Some p \<Rightarrow> p)"

definition taxRate :: "MonteCarloInput \<Rightarrow> real" where
  "taxRate cfg = (if taxFree cfg = Some True then 0 else TAX_RATE)"

definition mu :: "MonteCarloInput \<Rightarrow> real" where
  "mu cfg = (annualReturnRate cfg - expenseRatio_d cfg) / 100"

definition sigma :: "MonteCarloInput \<Rightarrow> real" where
  "sigma cfg = volatility cfg / 100"

definition ri :: "MonteCarloInput \<Rightarrow> real" where
  "ri cfg = inflationRate cfg / 100"

definition monthlyDrift :: "MonteCarloInput \<Rightarrow> real" where
  "monthlyDrift cfg = (mu cfg - ri cfg - (sigma cfg * sigma cfg) / 2) / 12"

definition monthlySigma :: "MonteCarloInput \<Rightarrow> real" where
  "monthlySigma cfg = sigma cfg / sqrt 12"

definition isRateMode :: "MonteCarloInput \<Rightarrow> bool" where
  "isRateMode cfg = (case annualWithdrawalRate cfg of None \<Rightarrow> False | Some r \<Rightarrow> r > 0)"

definition monthlyInflationFactor :: "MonteCarloInput \<Rightarrow> real" where
  "monthlyInflationFactor cfg =
     (if \<not> isRateMode cfg \<and> inflationAdjustedWithdrawal_d cfg
      then (1 + ri cfg) powr (1 / 12) else 1)"

definition totalYears :: "MonteCarloInput \<Rightarrow> nat" where
  "totalYears cfg = max (contributionYears cfg) (withdrawalStartYear cfg + withdrawalYears cfg)"

definition monthlyNominalDeflator :: "MonteCarloInput \<Rightarrow> real" where
  "monthlyNominalDeflator cfg =
     (if isRateMode cfg \<and> ri cfg > 0 then 1 / (1 + ri cfg) powr (1 / 12) else 1)"

subsection \<open>The mutable state of a call\<close>

text \<open>
  The closure state of \<open>rng\<close>, the typed arrays and the \<open>let\<close> variables of the function
  body. \<open>yearlyWithdrawals\<close> and \<open>initialWithdrawalAmount\<close> are \<open>null\<close> outside rate mode.
  The array \<open>sorted\<close> is \<open>sorted_arr\<close> and the growing \<open>yearlyData\<close> is \<open>yearlyData_acc\<close>.
\<close>

record sim_state =
  rng :: "32 word"
  paths :: "real list"
  sorted_arr :: "real list"
  costBasis :: "real list"
  yearlyWithdrawals :: "real list option"
  initialWithdrawalAmount :: "real list option"
  yearlyData_acc :: "MonteCarloYearData list"
  totalPrincipal :: real
  rateDeflationMultiplier :: real
  rateWithdrawalStarted :: bool
  currentMonthlyWithdrawal :: real

definition year0 :: "MonteCarloInput \<Rightarrow> MonteCarloYearData" where
  "year0 cfg =
     \<lparr> year = 0, p10 = initialAmount cfg, p25 = initialAmount cfg, p50 = initialAmount cfg,
       p75 = initialAmount cfg, p90 = initialAmount cfg, principal = initialAmount cfg,
       isContributing = False, isWithdrawing = False,
       depletionRate = None, medianYearlyWithdrawal = None \<rparr>"

definition init_state :: "MonteCarloInput \<Rightarrow> sim_state" where
  "init_state cfg =
     \<lparr> rng = mulberry32 SEED,
       paths = replicate NUM_SIMULATIONS (initialAmount cfg),
       sorted_arr = replicate NUM_SIMULATIONS 0,
       costBasis = replicate NUM_SIMULATIONS (initialAmount cfg),
       yearlyWithdrawals = (if isRateMode cfg then Some (replicate NUM_SIMULATIONS 0) else None),
       initialWithdrawalAmount =
         (if isRateMode cfg then Some (replicate NUM_SIMULATIONS 0) else None),
       yearlyData_acc = [year0 cfg],
       totalPrincipal = initialAmount cfg,
       rateDeflationMultiplier = 1,
       rateWithdrawalStarted = False,
       currentMonthlyWithdrawal = monthlyWithdrawal_d cfg \<rparr>"

subsection \<open>The withdrawal of one path in one month\<close>

text \<open>
  The arithmetic of the withdrawal block on the path's value \<open>v\<close> and cost basis \<open>b\<close>:
  the net withdrawal, the tax on it, the new cost basis and the new value.
\<close>

definition withdraw_amounts :: "real \<Rightarrow> real \<Rightarrow> real \<Rightarrow> real \<Rightarrow> real \<Rightarrow> real \<times> real \<times> real \<times> real" where
  "withdraw_amounts rate v b baseWithdrawal pension =
     (let netWithdrawal = max (baseWithdrawal - pension) 0;
          gainRatio = (if v > b then (v - b) / v else 0);
          taxOnWithdrawal = netWithdrawal * gainRatio * rate;
          withdrawalRatio = min (netWithdrawal / v) 1;
          b' = b * (1 - withdrawalRatio);
          v' = v - netWithdrawal - taxOnWithdrawal
      in (netWithdrawal, taxOnWithdrawal, b', if v' < 0 then 0 else v'))"

text \<open>The lock-in of rate mode: \<open>initialWithdrawalAmount[i]\<close> is set while it is 0.\<close>

definition lock_in :: "MonteCarloInput \<Rightarrow> nat \<Rightarrow> sim_state \<Rightarrow> real list option" where
  "lock_in cfg i st =
     (case (annualWithdrawalRate cfg, initialWithdrawalAmount st) of
        (Some r, Some a) \<Rightarrow>
          if isRateMode cfg \<and> a ! i = 0 then Some (a[i := paths st ! i * r / 100 / 12])
          else Some a
      | (_, x) \<Rightarrow> x)"

definition baseWithdrawal :: "MonteCarloInput \<Rightarrow> nat \<Rightarrow> sim_state \<Rightarrow> real" where
  "baseWithdrawal cfg i st =
     (case lock_in cfg i st of
        Some a \<Rightarrow>
          if isRateMode cfg then a ! i * rateDeflationMultiplier st
          else currentMonthlyWithdrawal st
      | None \<Rightarrow> currentMonthlyWithdrawal st)"

definition path_withdraw :: "MonteCarloInput \<Rightarrow> nat \<Rightarrow> sim_state \<Rightarrow> sim_state" where
  "path_withdraw cfg i st =
     (let (netWithdrawal, taxOnWithdrawal, b', v') =
            withdraw_amounts (taxRate cfg) (paths st ! i) (costBasis st ! i)
              (baseWithdrawal cfg i st) (monthlyPensionIncome_d cfg)
      in st\<lparr> initialWithdrawalAmount := lock_in cfg i st,
              yearlyWithdrawals :=
                map_option (\<lambda>yw. yw[i := yw ! i + netWithdrawal]) (yearlyWithdrawals st),
              costBasis := (costBasis st)[i := b'],
              paths := (paths st)[i := v'] \<rparr>)"

subsection \<open>One path, one month, one year\<close>

text \<open>
  The body of the loop over \<open>i\<close>: \<open>path_grow\<close> draws the deviate, applies the growth and
  credits the contribution; \<open>path_step\<close> then withdraws from a positive value.
\<close>

definition path_grow :: "MonteCarloInput \<Rightarrow> bool \<Rightarrow> nat \<Rightarrow> sim_state \<Rightarrow> sim_state" where
  "path_grow cfg isC i st =
     (let (z, r) = normalRandom (rng st);
          v = paths st ! i * exp (monthlyDrift cfg + monthlySigma cfg * z)
      in st\<lparr> rng := r,
              paths := (paths st)[i := (if isC then v + monthlyContribution cfg else v)],
              costBasis := (if isC
                 then (costBasis st)[i := costBasis st ! i + monthlyContribution cfg]
                 else costBasis st) \<rparr>)"

definition path_step :: "MonteCarloInput \<Rightarrow> bool \<Rightarrow> bool \<Rightarrow> nat \<Rightarrow> sim_state \<Rightarrow> sim_state" where
  "path_step cfg isC isW i st =
     (let st1 = path_grow cfg isC i st
      in if isW \<and> paths st1 ! i > 0 then path_withdraw cfg i st1 else st1)"

text \<open>
  The body of the loop over \<open>month\<close>: \<open>month_begin\<close> adjusts the size of the withdrawal
  (inflation in amount mode, deflation in rate mode); \<open>month_step\<close> then runs the loop
  over the paths and adds the contribution to the total principal.
\<close>

definition month_begin :: "MonteCarloInput \<Rightarrow> bool \<Rightarrow> sim_state \<Rightarrow> sim_state" where
  "month_begin cfg isW st =
     (let st1 = (if isW \<and> \<not> isRateMode cfg \<and> inflationAdjustedWithdrawal_d cfg
                 then st\<lparr> currentMonthlyWithdrawal :=
                            currentMonthlyWithdrawal st * monthlyInflationFactor cfg \<rparr>
                 else st)
      in if isW \<and> isRateMode cfg
         then (if rateWithdrawalStarted st1
               then st1\<lparr> rateDeflationMultiplier :=
                           rateDeflationMultiplier st1 * monthlyNominalDeflator cfg \<rparr>
               else st1\<lparr> rateWithdrawalStarted := True \<rparr>)
         else st1)"

definition month_step :: "MonteCarloInput \<Rightarrow> bool \<Rightarrow> bool \<Rightarrow> sim_state \<Rightarrow> sim_state" where
  "month_step cfg isC isW st =
     (let st3 = fold (path_step cfg isC isW) [0..<NUM_SIMULATIONS] (month_begin cfg isW st)
      in if isC then st3\<lparr> totalPrincipal := totalPrincipal st3 + monthlyContribution cfg \<rparr>
         else st3)"

text \<open>\<open>Math.round\<close> rounds to the nearest integer, a half upwards.\<close>

definition js_round :: "real \<Rightarrow> real" where
  "js_round x = real_of_int \<lfloor>x + 1 / 2\<rfloor>"

text \<open>\<open>Math.floor(NUM_SIMULATIONS * q)\<close>, the index of a percentile.\<close>

definition pct_index :: "real \<Rightarrow> nat" where
  "pct_index q = nat \<lfloor>real NUM_SIMULATIONS * q\<rfloor>"

definition isContributing_at :: "MonteCarloInput \<Rightarrow> nat \<Rightarrow> bool" where
  "isContributing_at cfg y = (y \<le> contributionYears cfg)"

definition isWithdrawing_at :: "MonteCarloInput \<Rightarrow> nat \<Rightarrow> bool" where
  "isWithdrawing_at cfg y =
     (y > withdrawalStartYear cfg \<and> y \<le> withdrawalStartYear cfg + withdrawalYears cfg)"

text \<open>The snapshot pushed at the end of year \<open>y\<close>, from the state after its twelve months.\<close>

definition snapshot :: "MonteCarloInput \<Rightarrow> nat \<Rightarrow> sim_state \<Rightarrow> MonteCarloYearData" where
  "snapshot cfg y st =
     (let isW = isWithdrawing_at cfg y;
          yearDepletionCount = (if isW then length (filter (\<lambda>v. v \<le> 0) (paths st)) else 0);
          median = (if isW
                    then map_option (\<lambda>yw. js_round (sort yw ! pct_index (5 / 10)))
                           (yearlyWithdrawals st)
                    else None)
      in \<lparr> year = y,
           p10 = js_round (sorted_arr st ! pct_index (1 / 10)),
           p25 = js_round (sorted_arr st ! pct_index (25 / 100)),
           p50 = js_round (sorted_arr st ! pct_index (5 / 10)),
           p75 = js_round (sorted_arr st ! pct_index (75 / 100)),
           p90 = js_round (sorted_arr st ! pct_index (9 / 10)),
           principal = js_round (min (totalPrincipal st) (sorted_arr st ! pct_index (5 / 10))),
           isContributing = isContributing_at cfg y,
           isWithdrawing = isW,
           depletionRate =
             (if isW then Some (real yearDepletionCount / real NUM_SIMULATIONS) else None),
           medianYearlyWithdrawal = median \<rparr>)"

text \<open>
  The body of the loop over \<open>year\<close>: \<open>year_body\<close> resets the yearly withdrawals, runs the
  twelve months and sorts the values; \<open>year_step\<close> then pushes the snapshot.
\<close>

definition year_body :: "MonteCarloInput \<Rightarrow> nat \<Rightarrow> sim_state \<Rightarrow> sim_state" where
  "year_body cfg y st =
     (let st1 = st\<lparr> yearlyWithdrawals := map_option (map (\<lambda>_. 0)) (yearlyWithdrawals st) \<rparr>;
          st2 = fold (\<lambda>month. month_step cfg (isContributing_at cfg y) (isWithdrawing_at cfg y))
                  [0..<12] st1
      in st2\<lparr> sorted_arr := sort (paths st2) \<rparr>)"

definition year_step :: "MonteCarloInput \<Rightarrow> nat \<Rightarrow> sim_state \<Rightarrow> sim_state" where
  "year_step cfg y st =
     (let st3 = year_body cfg y st
      in st3\<lparr> yearlyData_acc := yearlyData_acc st3 @ [snapshot cfg y st3] \<rparr>)"

text \<open>The state after the first \<open>n\<close> years of the loop.\<close>

definition run_years :: "MonteCarloInput \<Rightarrow> nat \<Rightarrow> sim_state" where
  "run_years cfg n = fold (year_step cfg) [1..<Suc n] (init_state cfg)"

text \<open>
  The state inside year \<open>n + 1\<close>, after its first \<open>k\<close> months: the yearly withdrawals are
  reset at the start of the year, then the months run.
\<close>

definition run_months :: "MonteCarloInput \<Rightarrow> nat \<Rightarrow> nat \<Rightarrow> sim_state" where
  "run_months cfg n k =
     fold (\<lambda>month. month_step cfg (isContributing_at cfg (Suc n)) (isWithdrawing_at cfg (Suc n)))
       [0..<k]
       ((run_years cfg n)\<lparr> yearlyWithdrawals :=
           map_option (map (\<lambda>_. 0)) (yearlyWithdrawals (run_years cfg n)) \<rparr>)"

subsection \<open>The histogram of the final values\<close>

definition bin_index :: "real \<Rightarrow> nat \<Rightarrow> real \<Rightarrow> nat" where
  "bin_index binWidth neededBins v = min (nat \<lfloor>v / binWidth\<rfloor>) (neededBins - 1)"

definition count_bins :: "real \<Rightarrow> nat \<Rightarrow> real list \<Rightarrow> nat list" where
  "count_bins binWidth neededBins srt =
     fold (\<lambda>i binCounts.
             if srt ! i > 0
             then binCounts[bin_index binWidth neededBins (srt ! i) :=
                    binCounts ! bin_index binWidth neededBins (srt ! i) + 1]
             else binCounts)
       [0..<NUM_SIMULATIONS] (replicate neededBins 0)"

definition build_distribution :: "real list \<Rightarrow> DistributionBin list" where
  "build_distribution srt =
     (let p90Val = srt ! pct_index (9 / 10);
          maxVal = srt ! (NUM_SIMULATIONS - 1);
          depletedCnt = length (filter (\<lambda>v. v \<le> 0) srt);
          depleted = (if depletedCnt > 0
                      then [\<lparr> rangeEnd = 0, count = depletedCnt, isDepleted = True \<rparr>] else [])
      in if maxVal > 0
         then (let binWidth = max p90Val 1 / real NUM_MAIN_BINS;
                   maxBins = NUM_MAIN_BINS + MAX_TAIL_BINS;
                   neededBins = min (nat \<lceil>maxVal / binWidth\<rceil>) maxBins;
                   binCounts = count_bins binWidth neededBins srt
               in depleted @
                  map (\<lambda>b. \<lparr> rangeEnd = js_round ((real b + 1) * binWidth),
                              count = binCounts ! b, isDepleted = False \<rparr>)
                    [0..<neededBins])
         else depleted)"

subsection \<open>The simulation\<close>

definition simulateMonteCarlo :: "MonteCarloInput \<Rightarrow> MonteCarloResult" where
  "simulateMonteCarlo cfg =
     (let st = run_years cfg (totalYears cfg);
          failureCount = length (filter (\<lambda>v. v < totalPrincipal st) (paths st));
          depletionProbability =
            (case yearlyData_acc st of
               [] \<Rightarrow> 0
             | _ \<Rightarrow> (case depletionRate (last (yearlyData_acc st)) of
                       None \<Rightarrow> 0 | Some d \<Rightarrow> d))
      in \<lparr> yearlyData = yearlyData_acc st,
           failureProbability = real failureCount / real NUM_SIMULATIONS,
           depletionProbability = depletionProbability,
           distribution = build_distribution (sorted_arr st) \<rparr>)"

subsection \<open>Configurations of the test suite\<close>


text \<open>Scenario B: twenty years of contribution, then ten years of a fixed withdrawal.\<close>

definition scenarioB :: MonteCarloInput where
  "scenarioB =
     \<lparr> initialAmount = 10000000, monthlyContribution = 50000, annualReturnRate = 5,
       volatility = 15, inflationRate = 2, contributionYears = 20, withdrawalStartYear = 20,
       withdrawalYears = 10,
       taxFree = None, monthlyWithdrawal = Some 150000, annualWithdrawalRate = None,
       expenseRatio = None, inflationAdjustedWithdrawal = None, monthlyPensionIncome = None \<rparr>"

text \<open>No simulated year at all: the three year counts are 0.\<close>

definition zero_horizon :: MonteCarloInput where
  "zero_horizon =
     \<lparr> initialAmount = 1000000, monthlyContribution = 0, annualReturnRate = 5, volatility = 0,
       inflationRate = 2, contributionYears = 0, withdrawalStartYear = 0, withdrawalYears = 0,
       taxFree = None, monthlyWithdrawal = None, annualWithdrawalRate = None,
       expenseRatio = None, inflationAdjustedWithdrawal = None, monthlyPensionIncome = None \<rparr>"

text \<open>Nothing invested and nothing contributed, with one year of withdrawal.\<close>

definition empty_portfolio :: MonteCarloInput where
  "empty_portfolio =
     \<lparr> initialAmount = 0, monthlyContribution = 0, annualReturnRate = 5, volatility = 15,
       inflationRate = 2, contributionYears = 0, withdrawalStartYear = 0, withdrawalYears = 1,
       taxFree = None, monthlyWithdrawal = Some 100000, annualWithdrawalRate = None,
       expenseRatio = None, inflationAdjustedWithdrawal = None, monthlyPensionIncome = None \<rparr>"

text \<open>Both withdrawal fields populated, with a positive rate and with the rate 0.\<close>

definition both_modes :: MonteCarloInput where
  "both_modes =
     \<lparr> initialAmount = 10000000, monthlyContribution = 50000, annualReturnRate = 5,
       volatility = 15, inflationRate = 2, contributionYears = 20, withdrawalStartYear = 20,
       withdrawalYears = 10,
       taxFree = None, monthlyWithdrawal = Some 150000, annualWithdrawalRate = Some 4,
       expenseRatio = None, inflationAdjustedWithdrawal = None, monthlyPensionIncome = None \<rparr>"

definition both_modes_zero_rate :: MonteCarloInput where
  "both_modes_zero_rate =
     \<lparr> initialAmount = 10000000, monthlyContribution = 50000, annualReturnRate = 5,
       volatility = 15, inflationRate = 2, contributionYears = 20, withdrawalStartYear = 20,
       withdrawalYears = 10,
       taxFree = None, monthlyWithdrawal = Some 150000, annualWithdrawalRate = Some 0,
       expenseRatio = None, inflationAdjustedWithdrawal = None, monthlyPensionIncome = None \<rparr>"


text \<open>
  Scenario D, with the values of its test: ten million invested at five percent, a
  withdrawal of four percent a year from the first year, for twenty years, with three
  percent of inflation and no volatility.
\<close>

definition scenarioD :: MonteCarloInput where
  "scenarioD =
     \<lparr> initialAmount = 10000000, monthlyContribution = 0, annualReturnRate = 5, volatility = 0,
       inflationRate = 3, contributionYears = 0, withdrawalStartYear = 0, withdrawalYears = 20,
       taxFree = None, monthlyWithdrawal = None, annualWithdrawalRate = Some 4,
       expenseRatio = None, inflationAdjustedWithdrawal = None, monthlyPensionIncome = None \<rparr>"

subsection \<open>Predicates on states\<close>

text \<open>Every path is at 0.\<close>

definition all_dead :: "sim_state \<Rightarrow> bool" where
  "all_dead st = (length (paths st) = NUM_SIMULATIONS \<and> list_all (\<lambda>v. v = 0) (paths st))"

text \<open>The lock-in array of rate mode exists.\<close>

definition has_lock :: "sim_state \<Rightarrow> bool" where
  "has_lock st = (initialWithdrawalAmount st \<noteq> None)"

text \<open>The arrays have their length.\<close>

definition wf_state :: "sim_state \<Rightarrow> bool" where
  "wf_state st =
     (length (paths st) = NUM_SIMULATIONS \<and> length (costBasis st) = NUM_SIMULATIONS \<and>
      (case yearlyWithdrawals st of None \<Rightarrow> True | Some a \<Rightarrow> length a = NUM_SIMULATIONS) \<and>
      (case initialWithdrawalAmount st of None \<Rightarrow> True | Some a \<Rightarrow> length a = NUM_SIMULATIONS))"

text \<open>Every cost basis lies between 0 and the total principal.\<close>

definition basis_inv :: "sim_state \<Rightarrow> bool" where
  "basis_inv st =
     (wf_state st \<and>
      list_all (\<lambda>j. 0 \<le> costBasis st ! j \<and> costBasis st ! j \<le> totalPrincipal st)
        [0..<NUM_SIMULATIONS])"

text \<open>Every cost basis is at most the value of its path, and no value is negative.\<close>

definition order_inv :: "sim_state \<Rightarrow> bool" where
  "order_inv st =
     (wf_state st \<and>
      list_all (\<lambda>j. costBasis st ! j \<le> paths st ! j \<and> 0 \<le> paths st ! j)
        [0..<NUM_SIMULATIONS])"

subsection \<open>One path on its own\<close>

text \<open>
  The loop over \<open>i\<close> touches the arrays at index \<open>i\<close> only. \<open>path_view\<close> is what a path owns
  of the state; \<open>path_month\<close> is the body of the loop on these values alone, with the
  multiplier, the fixed amount and the deviate as parameters. The lemma \<open>path_step_view\<close>
  shows that \<open>path_step\<close> does exactly this at its index, and \<open>path_step_frame\<close> that it
  leaves every other index alone.
\<close>

definition path_view :: "nat \<Rightarrow> sim_state \<Rightarrow> real \<times> real \<times> real option \<times> real option" where
  "path_view j st =
     (paths st ! j, costBasis st ! j,
      map_option (\<lambda>a. a ! j) (yearlyWithdrawals st),
      map_option (\<lambda>a. a ! j) (initialWithdrawalAmount st))"

definition path_month ::
    "MonteCarloInput \<Rightarrow> bool \<Rightarrow> bool \<Rightarrow> real \<Rightarrow> real \<Rightarrow> real \<Rightarrow>
     real \<times> real \<times> real option \<times> real option \<Rightarrow> real \<times> real \<times> real option \<times> real option" where
  "path_month cfg isC isW mult cmw z = (\<lambda>(v, b, yw, iwa).
     let v1 = v * exp (monthlyDrift cfg + monthlySigma cfg * z) +
              (if isC then monthlyContribution cfg else 0);
         b1 = b + (if isC then monthlyContribution cfg else 0)
     in if isW \<and> v1 > 0
        then (let iwa' = (case (annualWithdrawalRate cfg, iwa) of
                            (Some r, Some a) \<Rightarrow>
                              if isRateMode cfg \<and> a = 0 then Some (v1 * r / 100 / 12) else Some a
                          | (_, x) \<Rightarrow> x);
                  base = (case iwa' of
                            Some a \<Rightarrow> if isRateMode cfg then a * mult else cmw
                          | None \<Rightarrow> cmw);
                  (netWithdrawal, taxOnWithdrawal, b', v') =
                     withdraw_amounts (taxRate cfg) v1 b1 base (monthlyPensionIncome_d cfg)
              in (v', b', map_option (\<lambda>y. y + netWithdrawal) yw, iwa'))
        else (v1, b1, yw, iwa))"

subsection \<open>Scenario D, path by path\<close>

text \<open>
  The configurations that share scenario D's fixed fields, with at least 2000 invested, a
  return (after expenses) of at least the three percent of inflation, and no pension.
\<close>

definition likeD :: "MonteCarloInput \<Rightarrow> bool" where
  "likeD cfg =
     (annualWithdrawalRate cfg = Some 4 \<and> inflationRate cfg = 3 \<and> volatility cfg = 0 \<and>
      contributionYears cfg = 0 \<and> withdrawalStartYear cfg = 0 \<and> withdrawalYears cfg = 20 \<and>
      2000 \<le> initialAmount cfg \<and> 3 \<le> annualReturnRate cfg - expenseRatio_d cfg \<and>
      monthlyPensionIncome_d cfg = 0)"

text \<open>The monthly deflator of scenario D and the amount a path locks in its first month.\<close>

definition deflD :: real where
  "deflD = 1 / (1 + 3 / 100) powr (1 / 12)"

definition lockD :: "MonteCarloInput \<Rightarrow> real" where
  "lockD cfg = initialAmount cfg * exp (monthlyDrift cfg) * 4 / 100 / 12"

text \<open>
  What a path holds after \<open>k\<close> months of the year that starts at month \<open>s\<close>: the
  withdrawals of the year so far, the locked amount, a cost basis that is not negative,
  and a value of at least \<open>initialAmount * (1 - (s + k) / 248)\<close>.
\<close>

definition invD ::
    "MonteCarloInput \<Rightarrow> nat \<Rightarrow> nat \<Rightarrow> real \<times> real \<times> real option \<times> real option \<Rightarrow> bool" where
  "invD cfg s k = (\<lambda>(v, b, yw, iwa).
     yw = Some (lockD cfg * (\<Sum>j<k. deflD ^ (s + j))) \<and>
     iwa = Some (if s + k = 0 then 0 else lockD cfg) \<and>
     0 \<le> b \<and>
     initialAmount cfg * (1 - real (s + k) / 248) \<le> v \<and>
     (if s + k = 0 then v = initialAmount cfg else True))"

text \<open>The same for a state, with the started flag and the deflation multiplier.\<close>

definition stateD :: "MonteCarloInput \<Rightarrow> nat \<Rightarrow> nat \<Rightarrow> sim_state \<Rightarrow> bool" where
  "stateD cfg s k st =
     (wf_state st \<and>
      list_all (\<lambda>j. invD cfg s k (path_view j st)) [0..<NUM_SIMULATIONS] \<and>
      rateWithdrawalStarted st = (s + k > 0) \<and>
      rateDeflationMultiplier st = (if s + k = 0 then 1 else deflD ^ (s + k - 1)))"

section \<open>Properties\<close>

subsection \<open>What the loops leave unchanged\<close>

lemma fold_keeps: "(\<And>x s. g (f x s) = g s) \<Longrightarrow> g (fold f xs s) = g s"
  by (induction xs arbitrary: s) simp_all

lemma fold_preserves: "P s \<Longrightarrow> (\<And>x s. P s \<Longrightarrow> P (f x s)) \<Longrightarrow> P (fold f xs s)"
  by (induction xs arbitrary: s) simp_all

lemma path_withdraw_fields [simp]:
  "rng (path_withdraw cfg i st) = rng st"
  "sorted_arr (path_withdraw cfg i st) = sorted_arr st"
  "yearlyData_acc (path_withdraw cfg i st) = yearlyData_acc st"
  "totalPrincipal (path_withdraw cfg i st) = totalPrincipal st"
  "rateDeflationMultiplier (path_withdraw cfg i st) = rateDeflationMultiplier st"
  "rateWithdrawalStarted (path_withdraw cfg i st) = rateWithdrawalStarted st"
  "currentMonthlyWithdrawal (path_withdraw cfg i st) = currentMonthlyWithdrawal st"
  "length (paths (path_withdraw cfg i st)) = length (paths st)"
  "length (costBasis (path_withdraw cfg i st)) = length (costBasis st)"
  by (simp_all add: path_withdraw_def split: prod.splits)

lemma path_step_fields [simp]:
  "sorted_arr (path_step cfg c w i st) = sorted_arr st"
  "yearlyData_acc (path_step cfg c w i st) = yearlyData_acc st"
  "totalPrincipal (path_step cfg c w i st) = totalPrincipal st"
  "rateDeflationMultiplier (path_step cfg c w i st) = rateDeflationMultiplier st"
  "rateWithdrawalStarted (path_step cfg c w i st) = rateWithdrawalStarted st"
  "currentMonthlyWithdrawal (path_step cfg c w i st) = currentMonthlyWithdrawal st"
  "length (paths (path_step cfg c w i st)) = length (paths st)"
  "length (costBasis (path_step cfg c w i st)) = length (costBasis st)"
  by (simp_all add: path_step_def path_grow_def Let_def split: prod.splits)

lemma paths_loop_fields [simp]:
  "sorted_arr (fold (path_step cfg c w) xs st) = sorted_arr st"
  "yearlyData_acc (fold (path_step cfg c w) xs st) = yearlyData_acc st"
  "totalPrincipal (fold (path_step cfg c w) xs st) = totalPrincipal st"
  "rateDeflationMultiplier (fold (path_step cfg c w) xs st) = rateDeflationMultiplier st"
  "rateWithdrawalStarted (fold (path_step cfg c w) xs st) = rateWithdrawalStarted st"
  "currentMonthlyWithdrawal (fold (path_step cfg c w) xs st) = currentMonthlyWithdrawal st"
  "length (paths (fold (path_step cfg c w) xs st)) = length (paths st)"
  "length (costBasis (fold (path_step cfg c w) xs st)) = length (costBasis st)"
  by (induction xs arbitrary: st) simp_all

lemma month_begin_fields [simp]:
  "rng (month_begin cfg w st) = rng st"
  "paths (month_begin cfg w st) = paths st"
  "sorted_arr (month_begin cfg w st) = sorted_arr st"
  "costBasis (month_begin cfg w st) = costBasis st"
  "yearlyWithdrawals (month_begin cfg w st) = yearlyWithdrawals st"
  "initialWithdrawalAmount (month_begin cfg w st) = initialWithdrawalAmount st"
  "yearlyData_acc (month_begin cfg w st) = yearlyData_acc st"
  "totalPrincipal (month_begin cfg w st) = totalPrincipal st"
  by (simp_all add: month_begin_def Let_def)

lemma month_step_fields [simp]:
  "sorted_arr (month_step cfg c w st) = sorted_arr st"
  "yearlyData_acc (month_step cfg c w st) = yearlyData_acc st"
  "length (paths (month_step cfg c w st)) = length (paths st)"
  "length (costBasis (month_step cfg c w st)) = length (costBasis st)"
  by (simp_all add: month_step_def Let_def)

lemma months_fields [simp]:
  "sorted_arr (fold (\<lambda>m. month_step cfg c w) ms st) = sorted_arr st"
  "yearlyData_acc (fold (\<lambda>m. month_step cfg c w) ms st) = yearlyData_acc st"
  "length (paths (fold (\<lambda>m. month_step cfg c w) ms st)) = length (paths st)"
  "length (costBasis (fold (\<lambda>m. month_step cfg c w) ms st)) = length (costBasis st)"
  by (induction ms arbitrary: st) simp_all

lemma year_body_fields [simp]:
  "yearlyData_acc (year_body cfg y st) = yearlyData_acc st"
  "length (paths (year_body cfg y st)) = length (paths st)"
  "length (costBasis (year_body cfg y st)) = length (costBasis st)"
  "sorted_arr (year_body cfg y st) = sort (paths (year_body cfg y st))"
  by (simp_all add: year_body_def Let_def)

lemma year_step_fields [simp]:
  "yearlyData_acc (year_step cfg y st) = yearlyData_acc st @ [snapshot cfg y (year_body cfg y st)]"
  "paths (year_step cfg y st) = paths (year_body cfg y st)"
  "sorted_arr (year_step cfg y st) = sort (paths (year_body cfg y st))"
  "totalPrincipal (year_step cfg y st) = totalPrincipal (year_body cfg y st)"
  by (simp_all add: year_step_def Let_def)

lemma run_years_Suc: "run_years cfg (Suc n) = year_step cfg (Suc n) (run_years cfg n)"
  by (simp add: run_years_def)

lemma run_years_0: "run_years cfg 0 = init_state cfg"
  by (simp add: run_years_def)

lemma run_years_len_paths [simp]: "length (paths (run_years cfg n)) = NUM_SIMULATIONS"
  by (induction n) (simp_all add: run_years_Suc run_years_0 init_state_def)

lemma run_years_len_sorted [simp]: "length (sorted_arr (run_years cfg n)) = NUM_SIMULATIONS"
  by (cases n) (simp_all add: run_years_Suc run_years_0 init_state_def)

lemma acc_run_years:
  "yearlyData_acc (run_years cfg n) =
     year0 cfg # map (\<lambda>y. snapshot cfg y (year_body cfg y (run_years cfg (y - 1)))) [1..<Suc n]"
  by (induction n) (simp_all add: run_years_Suc run_years_0 init_state_def)

lemma acc_length: "length (yearlyData_acc (run_years cfg n)) = Suc n"
  by (simp add: acc_run_years)

lemma acc_nth_0: "yearlyData_acc (run_years cfg n) ! 0 = year0 cfg"
  by (simp add: acc_run_years)

lemma acc_nth:
  assumes "1 \<le> y" "y \<le> n"
  shows "yearlyData_acc (run_years cfg n) ! y = snapshot cfg y (year_body cfg y (run_years cfg (y - 1)))"
proof -
  obtain k where k: "y = Suc k" using assms(1) by (cases y) auto
  have "k < length [1..<Suc n]" using assms(2) k by simp
  then show ?thesis
    unfolding acc_run_years k by (simp del: upt_Suc add: nth_map)
qed

lemma snapshot_flags [simp]:
  "year (snapshot cfg y st) = y"
  "isContributing (snapshot cfg y st) = isContributing_at cfg y"
  "isWithdrawing (snapshot cfg y st) = isWithdrawing_at cfg y"
  by (simp_all add: snapshot_def Let_def)

lemma snapshot_depletion:
  "depletionRate (snapshot cfg y st) =
     (if isWithdrawing_at cfg y
      then Some (real (length (filter (\<lambda>v. v \<le> 0) (paths st))) / real NUM_SIMULATIONS)
      else None)"
  by (simp add: snapshot_def Let_def)

lemma yearlyData_sim [simp]:
  "yearlyData (simulateMonteCarlo cfg) = yearlyData_acc (run_years cfg (totalYears cfg))"
  by (simp add: simulateMonteCarlo_def Let_def)


subsection \<open>Percentiles and snapshots\<close>

lemma pct_index_values [simp]:
  "pct_index (1 / 10) = 500" "pct_index (25 / 100) = 1250" "pct_index (5 / 10) = 2500"
  "pct_index (75 / 100) = 3750" "pct_index (9 / 10) = 4500"
  "pct_index (1 / 4) = 1250" "pct_index (1 / 2) = 2500" "pct_index (3 / 4) = 3750"
  by (simp_all add: pct_index_def NUM_SIMULATIONS_def)

lemma js_round_mono: "x \<le> y \<Longrightarrow> js_round x \<le> js_round y"
  by (simp add: js_round_def floor_mono)

lemma snapshot_ordered:
  assumes "sorted (sorted_arr st)" "length (sorted_arr st) = NUM_SIMULATIONS"
  shows "p10 (snapshot cfg y st) \<le> p25 (snapshot cfg y st) \<and>
         p25 (snapshot cfg y st) \<le> p50 (snapshot cfg y st) \<and>
         p50 (snapshot cfg y st) \<le> p75 (snapshot cfg y st) \<and>
         p75 (snapshot cfg y st) \<le> p90 (snapshot cfg y st)"
  using assms
  by (simp add: snapshot_def Let_def js_round_mono sorted_nth_mono NUM_SIMULATIONS_def)

lemma acc_set:
  "set (yearlyData_acc (run_years cfg n)) =
     insert (year0 cfg) ((\<lambda>y. snapshot cfg y (year_body cfg y (run_years cfg (y - 1)))) ` {1..n})"
  by (simp add: acc_run_years atLeastLessThanSuc_atLeastAtMost del: upt_Suc)

lemma depletionProbability_sim:
  "depletionProbability (simulateMonteCarlo cfg) =
     (case depletionRate (last (yearlyData_acc (run_years cfg (totalYears cfg)))) of
        None \<Rightarrow> 0 | Some d \<Rightarrow> d)"
proof -
  have "yearlyData_acc (run_years cfg (totalYears cfg)) \<noteq> []"
    by (simp add: acc_run_years)
  then show ?thesis
    by (cases "yearlyData_acc (run_years cfg (totalYears cfg))")
       (simp_all add: simulateMonteCarlo_def Let_def)
qed



subsection \<open>The year-0 snapshot\<close>

text \<open>
  Claim C10. For every configuration the yearly sequence is not empty and its first
  element is the year-0 snapshot: year 0, the five percentiles and the principal equal to
  \<open>initialAmount\<close>, both phase flags false (whatever the contribution and withdrawal
  years are), and neither \<open>depletionRate\<close> nor \<open>medianYearlyWithdrawal\<close>.
\<close>

theorem C10_year0_snapshot:
  "yearlyData (simulateMonteCarlo cfg) \<noteq> [] \<and>
   yearlyData (simulateMonteCarlo cfg) ! 0 =
     \<lparr> year = 0, p10 = initialAmount cfg, p25 = initialAmount cfg, p50 = initialAmount cfg,
       p75 = initialAmount cfg, p90 = initialAmount cfg, principal = initialAmount cfg,
       isContributing = False, isWithdrawing = False,
       depletionRate = None, medianYearlyWithdrawal = None \<rparr>"
  by (simp add: acc_run_years year0_def)

subsection \<open>The phase schedule\<close>

text \<open>
  Claim C4. \<open>totalYears\<close> is the maximum of \<open>contributionYears\<close> and
  \<open>withdrawalStartYear + withdrawalYears\<close>; the result has \<open>totalYears + 1\<close> snapshots, for
  the years 0 to \<open>totalYears\<close> in order; and the snapshot of a year \<open>y\<close> from 1 to
  \<open>totalYears\<close> has \<open>isContributing = (y \<le> contributionYears)\<close> and
  \<open>isWithdrawing = (withdrawalStartYear < y \<le> withdrawalStartYear + withdrawalYears)\<close>.
\<close>

theorem C4_phase_schedule:
  "totalYears cfg = max (contributionYears cfg) (withdrawalStartYear cfg + withdrawalYears cfg) \<and>
   length (yearlyData (simulateMonteCarlo cfg)) = totalYears cfg + 1 \<and>
   map year (yearlyData (simulateMonteCarlo cfg)) = [0..<totalYears cfg + 1] \<and>
   (1 \<le> y \<and> y \<le> totalYears cfg \<longrightarrow>
      isContributing (yearlyData (simulateMonteCarlo cfg) ! y) = (y \<le> contributionYears cfg) \<and>
      isWithdrawing (yearlyData (simulateMonteCarlo cfg) ! y) =
        (withdrawalStartYear cfg < y \<and> y \<le> withdrawalStartYear cfg + withdrawalYears cfg))"
proof -
  have years: "map year (yearlyData_acc (run_years cfg n)) = [0..<n + 1]" for n
    by (induction n) (simp_all add: run_years_Suc run_years_0 init_state_def year0_def)
  show ?thesis
    by (simp add: totalYears_def [symmetric] acc_length years acc_nth
          isContributing_at_def isWithdrawing_at_def del: upt_Suc)
qed

theorem C4_phase_schedule_witness:
  "length (yearlyData (simulateMonteCarlo scenarioB)) = 31 \<and>
   \<not> isContributing (yearlyData (simulateMonteCarlo scenarioB) ! 25) \<and>
   isWithdrawing (yearlyData (simulateMonteCarlo scenarioB) ! 25)"
  using C4_phase_schedule [of scenarioB 25] by (simp add: scenarioB_def totalYears_def)

subsection \<open>The order of the percentiles\<close>

text \<open>
  Claim C6. In every yearly snapshot of every configuration the five percentiles are in
  non-decreasing order: \<open>p10 \<le> p25 \<le> p50 \<le> p75 \<le> p90\<close>.
\<close>

theorem C6_percentiles_ordered:
  "\<forall>d \<in> set (yearlyData (simulateMonteCarlo cfg)).
     p10 d \<le> p25 d \<and> p25 d \<le> p50 d \<and> p50 d \<le> p75 d \<and> p75 d \<le> p90 d"
proof
  fix d assume "d \<in> set (yearlyData (simulateMonteCarlo cfg))"
  then consider "d = year0 cfg"
    | y where "d = snapshot cfg y (year_body cfg y (run_years cfg (y - 1)))"
    by (auto simp: acc_set)
  then show "p10 d \<le> p25 d \<and> p25 d \<le> p50 d \<and> p50 d \<le> p75 d \<and> p75 d \<le> p90 d"
  proof cases
    case 1
    then show ?thesis by (simp add: year0_def)
  next
    case 2
    show ?thesis unfolding 2 by (rule snapshot_ordered) simp_all
  qed
qed

theorem C6_percentiles_ordered_witness:
  "p10 (yearlyData (simulateMonteCarlo scenarioB) ! 3) \<le> p25 (yearlyData (simulateMonteCarlo scenarioB) ! 3) \<and>
   p25 (yearlyData (simulateMonteCarlo scenarioB) ! 3) \<le> p50 (yearlyData (simulateMonteCarlo scenarioB) ! 3) \<and>
   p50 (yearlyData (simulateMonteCarlo scenarioB) ! 3) \<le> p75 (yearlyData (simulateMonteCarlo scenarioB) ! 3) \<and>
   p75 (yearlyData (simulateMonteCarlo scenarioB) ! 3) \<le> p90 (yearlyData (simulateMonteCarlo scenarioB) ! 3)"
proof -
  have "yearlyData (simulateMonteCarlo scenarioB) ! 3 \<in> set (yearlyData (simulateMonteCarlo scenarioB))"
    by (rule nth_mem) (simp add: acc_length totalYears_def scenarioB_def)
  from bspec [OF C6_percentiles_ordered this] show ?thesis .
qed

subsection \<open>No withdrawal years\<close>



subsection \<open>The withdrawal step\<close>

lemma withdraw_amounts_eq:
  assumes "v > 0"
  shows "withdraw_amounts rate v b w p =
     (max (w - p) 0,
      max (w - p) 0 * max 0 ((v - b) / v) * rate,
      b * (1 - min (max (w - p) 0 / v) 1),
      max (v - max (w - p) 0 - max (w - p) 0 * max 0 ((v - b) / v) * rate) 0)"
proof -
  have g: "(if v > b then (v - b) / v else 0) = max 0 ((v - b) / v)"
    using assms by (auto simp: max_def divide_le_0_iff zero_le_divide_iff)
  show ?thesis
    unfolding withdraw_amounts_def Let_def g by (auto simp: max_def)
qed

text \<open>
  Claim C3. One withdrawal of a path with value \<open>v > 0\<close> and cost basis \<open>b\<close>, for the base
  withdrawal \<open>w\<close> and the pension \<open>p\<close>: the net withdrawal is \<open>max (w - p) 0\<close>; the tax is
  the net withdrawal times \<open>max 0 ((v - b) / v)\<close> times the tax rate, which is 0 when
  \<open>taxFree\<close> is set and 20.315 percent otherwise; the new cost basis is
  \<open>b * (1 - min (netWithdrawal / v) 1)\<close>; the new value is
  \<open>v - netWithdrawal - taxOwed\<close>, floored at 0. (The tax rate is the constant of the
  specification; its module is not among the sources.)
\<close>

theorem C3_withdrawal_step:
  fixes cfg :: MonteCarloInput and st :: sim_state and i :: nat
  assumes "i < length (paths st)" and "i < length (costBasis st)" and "paths st ! i > 0"
  defines "v \<equiv> paths st ! i" and "b \<equiv> costBasis st ! i"
    and "w \<equiv> baseWithdrawal cfg i st" and "p \<equiv> monthlyPensionIncome_d cfg"
  defines "netWithdrawal \<equiv> max (w - p) 0"
  defines "taxOwed \<equiv> netWithdrawal * max 0 ((v - b) / v) *
                        (if taxFree cfg = Some True then 0 else 20315 / 100000)"
  shows "withdraw_amounts (taxRate cfg) v b w p =
           (netWithdrawal, taxOwed, b * (1 - min (netWithdrawal / v) 1),
            max (v - netWithdrawal - taxOwed) 0) \<and>
         costBasis (path_withdraw cfg i st) ! i = b * (1 - min (netWithdrawal / v) 1) \<and>
         paths (path_withdraw cfg i st) ! i = max (v - netWithdrawal - taxOwed) 0"
proof -
  have v: "v > 0" using assms(3) by (simp add: v_def)
  have r: "taxRate cfg = (if taxFree cfg = Some True then 0 else 20315 / 100000)"
    by (simp add: taxRate_def TAX_RATE_def)
  have e: "withdraw_amounts (taxRate cfg) v b w p =
           (netWithdrawal, taxOwed, b * (1 - min (netWithdrawal / v) 1),
            max (v - netWithdrawal - taxOwed) 0)"
    unfolding withdraw_amounts_eq [OF v] netWithdrawal_def taxOwed_def r ..
  show ?thesis
    using assms(1,2) e
    by (simp add: path_withdraw_def v_def [symmetric] b_def [symmetric] w_def [symmetric]
          p_def [symmetric])
qed


theorem C3_withdrawal_step_witness:
  "costBasis (path_withdraw scenarioB 0 (init_state scenarioB)) ! 0 = 9850000 \<and>
   paths (path_withdraw scenarioB 0 (init_state scenarioB)) ! 0 = 9850000"
proof -
  have l: "0 < length (paths (init_state scenarioB))" "0 < length (costBasis (init_state scenarioB))"
    by (simp_all add: init_state_def NUM_SIMULATIONS_def)
  have v: "paths (init_state scenarioB) ! 0 > 0"
    by (simp add: init_state_def NUM_SIMULATIONS_def scenarioB_def)
  have w: "baseWithdrawal scenarioB 0 (init_state scenarioB) = 150000"
    by (simp add: baseWithdrawal_def lock_in_def init_state_def isRateMode_def scenarioB_def
          monthlyWithdrawal_d_def)
  have x: "paths (init_state scenarioB) ! 0 = 10000000" "costBasis (init_state scenarioB) ! 0 = 10000000"
    "monthlyPensionIncome_d scenarioB = 0"
    by (simp_all add: init_state_def NUM_SIMULATIONS_def scenarioB_def monthlyPensionIncome_d_def)
  show ?thesis
    using C3_withdrawal_step [OF l v, of scenarioB] unfolding w x by simp
qed

subsection \<open>The histogram\<close>

lemma bump_sum: "k < length (bc :: nat list) \<Longrightarrow> sum_list (bc[k := bc ! k + 1]) = sum_list bc + 1"
  by (simp add: sum_list_update)

lemma count_loop:
  assumes "n \<ge> 1" "length bc = n"
  shows "length (fold (\<lambda>i binCounts.
             if srt ! i > 0
             then binCounts[bin_index w n (srt ! i) := binCounts ! bin_index w n (srt ! i) + 1]
             else binCounts) ixs bc) = n \<and>
         sum_list (fold (\<lambda>i binCounts.
             if srt ! i > 0
             then binCounts[bin_index w n (srt ! i) := binCounts ! bin_index w n (srt ! i) + 1]
             else binCounts) ixs bc) = sum_list bc + length (filter (\<lambda>i. srt ! i > 0) ixs)"
  using assms(2)
proof (induction ixs arbitrary: bc)
  case Nil
  then show ?case by simp
next
  case (Cons i ixs)
  have "bin_index w n (srt ! i) \<le> n - 1"
    by (simp add: bin_index_def)
  then have k: "bin_index w n (srt ! i) < length bc"
    using assms(1) Cons.prems by linarith
  show ?case
    using Cons.IH [of "bc[bin_index w n (srt ! i) := bc ! bin_index w n (srt ! i) + 1]"]
      Cons.IH [of bc] Cons.prems bump_sum [OF k]
    by simp
qed

lemma filter_index: "length (filter (\<lambda>i. P (xs ! i)) [0..<length xs]) = length (filter P xs)"
proof -
  have "filter P xs = filter P (map (\<lambda>i. xs ! i) [0..<length xs])"
    by (simp add: map_nth)
  also have "\<dots> = map (\<lambda>i. xs ! i) (filter (\<lambda>i. P (xs ! i)) [0..<length xs])"
    by (simp add: filter_map comp_def)
  finally show ?thesis by simp
qed

lemma count_bins_props:
  assumes "n \<ge> 1" "length srt = NUM_SIMULATIONS"
  shows "length (count_bins w n srt) = n"
    and "sum_list (count_bins w n srt) = length (filter (\<lambda>v. v > 0) srt)"
  using count_loop [OF assms(1), of "replicate n 0" srt w "[0..<NUM_SIMULATIONS]"]
    filter_index [of "\<lambda>v. v > 0" srt] assms(2)
  by (simp_all add: count_bins_def)

lemma neededBins_pos:
  assumes "maxVal > 0"
  shows "1 \<le> min (nat \<lceil>maxVal / (max p90Val 1 / real NUM_MAIN_BINS)\<rceil>) (NUM_MAIN_BINS + MAX_TAIL_BINS)"
proof -
  define x where "x = maxVal / (max p90Val 1 / real NUM_MAIN_BINS)"
  have "x > 0"
    using assms by (simp add: x_def NUM_MAIN_BINS_def)
  then have "\<lceil>x\<rceil> > 0"
    by (simp add: less_ceiling_iff)
  then have "1 \<le> nat \<lceil>x\<rceil>" by linarith
  then show ?thesis unfolding x_def [symmetric] by (simp add: NUM_MAIN_BINS_def)
qed

lemma split_by_sign:
  "length (filter (\<lambda>v. v \<le> 0) xs) + length (filter (\<lambda>v. v > (0::real)) xs) = length xs"
  using sum_length_filter_compl [of "\<lambda>v. v \<le> 0" xs] by (simp add: not_le)

lemma build_distribution_total:
  assumes "length srt = NUM_SIMULATIONS" "sorted srt"
  shows "sum_list (map count (build_distribution srt)) = NUM_SIMULATIONS"
proof (cases "srt ! (NUM_SIMULATIONS - 1) > 0")
  case True
  let ?w = "max (srt ! pct_index (9 / 10)) 1 / real NUM_MAIN_BINS"
  let ?n = "min (nat \<lceil>srt ! (NUM_SIMULATIONS - 1) / ?w\<rceil>) (NUM_MAIN_BINS + MAX_TAIL_BINS)"
  have n: "1 \<le> ?n" by (rule neededBins_pos [OF True])
  have len: "length (count_bins ?w ?n srt) = ?n"
    by (rule count_bins_props(1) [OF n assms(1)])
  have "map (\<lambda>b. count_bins ?w ?n srt ! b) [0..<?n] = count_bins ?w ?n srt"
    using map_nth [of "count_bins ?w ?n srt"] unfolding len .
  then have "sum_list (map (\<lambda>b. count_bins ?w ?n srt ! b) [0..<?n]) = sum_list (count_bins ?w ?n srt)"
    by (rule arg_cong)
  then have "sum_list (map count (build_distribution srt)) =
      length (filter (\<lambda>v. v \<le> 0) srt) + length (filter (\<lambda>v. v > 0) srt)"
    using True count_bins_props(2) [OF n assms(1), of ?w]
    by (simp add: build_distribution_def Let_def comp_def)
  then show ?thesis using split_by_sign [of srt] assms(1) by simp
next
  case False
  have all: "\<forall>v \<in> set srt. v \<le> 0"
  proof
    fix v assume "v \<in> set srt"
    then obtain j where j: "j < length srt" "srt ! j = v"
      unfolding in_set_conv_nth by blast
    have "j \<le> NUM_SIMULATIONS - 1" using j(1) assms(1) by simp
    moreover have "NUM_SIMULATIONS - 1 < length srt"
      using assms(1) by (simp add: NUM_SIMULATIONS_def)
    ultimately have "srt ! j \<le> srt ! (NUM_SIMULATIONS - 1)"
      using assms(2) by (rule sorted_nth_mono [rotated])
    with False j(2) show "v \<le> 0" by simp
  qed
  have f: "filter (\<lambda>v. v \<le> 0) srt = srt"
    using all by (rule filter_True)
  have "build_distribution srt =
      (if length srt > 0 then [\<lparr> rangeEnd = 0, count = length srt, isDepleted = True \<rparr>] else [])"
    using False unfolding build_distribution_def Let_def f by simp
  then show ?thesis
    using assms(1) by (simp add: NUM_SIMULATIONS_def)
qed

lemma run_years_sorted: "sorted (sorted_arr (run_years cfg n))"
  by (cases n) (simp_all add: run_years_Suc run_years_0 init_state_def)

lemma distribution_counts_sum:
  "sum_list (map count (distribution (simulateMonteCarlo cfg))) = NUM_SIMULATIONS"
  by (simp add: simulateMonteCarlo_def Let_def build_distribution_total run_years_sorted)

text \<open>
  Claim C5. The bin counts sum to \<open>NUM_SIMULATIONS\<close> for every configuration
  (\<open>distribution_counts_sum\<close> above), but the bins are not always those of the final
  values: with no simulated year the array \<open>sorted\<close> is never filled from the paths and
  still holds its initial zeros. For \<open>zero_horizon\<close> every final value is 1000000, no path
  is below the principal, and yet the histogram is one depleted bin with all 5000 paths.
\<close>

theorem C5_zero_horizon_histogram:
  "distribution (simulateMonteCarlo zero_horizon) =
     [\<lparr> rangeEnd = 0, count = 5000, isDepleted = True \<rparr>] \<and>
   paths (run_years zero_horizon (totalYears zero_horizon)) = replicate 5000 1000000 \<and>
   failureProbability (simulateMonteCarlo zero_horizon) = 0"
proof -
  have t: "totalYears zero_horizon = 0" by (simp add: totalYears_def zero_horizon_def)
  have r: "run_years zero_horizon (totalYears zero_horizon) = init_state zero_horizon"
    unfolding t by (rule run_years_0)
  have s: "sorted_arr (init_state zero_horizon) = replicate 5000 0"
    and p: "paths (init_state zero_horizon) = replicate 5000 1000000"
    and tp: "totalPrincipal (init_state zero_horizon) = 1000000"
    by (simp_all add: init_state_def NUM_SIMULATIONS_def zero_horizon_def)
  have d: "build_distribution (replicate 5000 0) = [\<lparr> rangeEnd = 0, count = 5000, isDepleted = True \<rparr>]"
    by (simp add: build_distribution_def Let_def NUM_SIMULATIONS_def filter_replicate)
  show ?thesis
    unfolding simulateMonteCarlo_def Let_def r s p tp d by (simp add: filter_replicate)
qed

subsection \<open>Failure and depletion\<close>

lemma filter_length_mono:
  "(\<And>x. P x \<Longrightarrow> Q x) \<Longrightarrow> length (filter P xs) \<le> length (filter Q xs)"
  by (induction xs) auto

lemma acc_last_Suc:
  "last (yearlyData_acc (run_years cfg (Suc n))) =
     snapshot cfg (Suc n) (year_body cfg (Suc n) (run_years cfg n))"
  by (simp add: run_years_Suc)

lemma paths_run_years_Suc:
  "paths (run_years cfg (Suc n)) = paths (year_body cfg (Suc n) (run_years cfg n))"
  by (simp add: run_years_Suc)

lemma failureProbability_sim:
  "failureProbability (simulateMonteCarlo cfg) =
     real (length (filter (\<lambda>v. v < totalPrincipal (run_years cfg (totalYears cfg)))
                      (paths (run_years cfg (totalYears cfg))))) / real NUM_SIMULATIONS"
  by (simp add: simulateMonteCarlo_def Let_def)

lemma depletionProbability_cases:
  "depletionProbability (simulateMonteCarlo cfg) =
     (if isWithdrawing_at cfg (totalYears cfg) \<and> totalYears cfg \<noteq> 0
      then real (length (filter (\<lambda>v. v \<le> 0) (paths (run_years cfg (totalYears cfg))))) /
           real NUM_SIMULATIONS
      else 0)"
proof (cases "totalYears cfg")
  case 0
  then show ?thesis
    by (simp add: depletionProbability_sim run_years_0 init_state_def year0_def)
next
  case (Suc n)
  then show ?thesis
    by (simp add: depletionProbability_sim acc_last_Suc paths_run_years_Suc snapshot_depletion)
qed

lemma failure_ge_depletion:
  assumes "totalPrincipal (run_years cfg (totalYears cfg)) > 0"
  shows "depletionProbability (simulateMonteCarlo cfg) \<le> failureProbability (simulateMonteCarlo cfg)"
proof -
  have "length (filter (\<lambda>v. v \<le> 0) (paths (run_years cfg (totalYears cfg))))
        \<le> length (filter (\<lambda>v. v < totalPrincipal (run_years cfg (totalYears cfg)))
              (paths (run_years cfg (totalYears cfg))))"
    using assms by (intro filter_length_mono) simp
  then show ?thesis
    by (simp add: depletionProbability_cases failureProbability_sim divide_right_mono)
qed

lemma path_step_dead:
  assumes "i < length (paths st)" "paths st ! i = 0"
  shows "path_step cfg False w i st = st\<lparr> rng := snd (normalRandom (rng st)) \<rparr>"
proof -
  have "(paths st)[i := 0] = paths st"
    using assms list_update_id [of "paths st" i] by simp
  then show ?thesis
    using assms by (simp add: path_step_def path_grow_def Let_def split: prod.splits)
qed

lemma paths_loop_dead:
  assumes "\<forall>i \<in> set ixs. i < length (paths st) \<and> paths st ! i = 0"
  shows "\<exists>r. fold (path_step cfg False w) ixs st = st\<lparr> rng := r \<rparr>"
  using assms
proof (induction ixs arbitrary: st)
  case Nil
  have "st = st\<lparr> rng := rng st \<rparr>" by simp
  then show ?case by (metis fold_simps(1))
next
  case (Cons i ixs)
  let ?st = "st\<lparr> rng := snd (normalRandom (rng st)) \<rparr>"
  have s: "path_step cfg False w i st = ?st"
    using Cons.prems by (simp add: path_step_dead)
  have "\<forall>j \<in> set ixs. j < length (paths ?st) \<and> paths ?st ! j = 0"
    using Cons.prems by simp
  from Cons.IH [OF this] obtain r where "fold (path_step cfg False w) ixs ?st = ?st\<lparr> rng := r \<rparr>" ..
  then have "fold (path_step cfg False w) (i # ixs) st = st\<lparr> rng := r \<rparr>"
    by (simp add: s)
  then show ?case ..
qed

lemma all_dead_nth: "all_dead st \<Longrightarrow> i < NUM_SIMULATIONS \<Longrightarrow> paths st ! i = 0"
  by (simp add: all_dead_def list_all_length)

lemma month_step_dead:
  assumes "all_dead st"
  shows "paths (month_step cfg False w st) = paths st"
    and "yearlyWithdrawals (month_step cfg False w st) = yearlyWithdrawals st"
    and "totalPrincipal (month_step cfg False w st) = totalPrincipal st"
proof -
  have d: "\<forall>i \<in> set [0..<NUM_SIMULATIONS]. i < length (paths s) \<and> paths s ! i = 0"
    if "paths s = paths st" for s
    using assms that by (simp add: all_dead_def list_all_length)
  have "\<exists>r. fold (path_step cfg False w) [0..<NUM_SIMULATIONS] s = s\<lparr> rng := r \<rparr>"
    if "paths s = paths st" for s
    by (rule paths_loop_dead [OF d [OF that]])
  then have f: "paths (fold (path_step cfg False w) [0..<NUM_SIMULATIONS] s) = paths st \<and>
      yearlyWithdrawals (fold (path_step cfg False w) [0..<NUM_SIMULATIONS] s) = yearlyWithdrawals s \<and>
      totalPrincipal (fold (path_step cfg False w) [0..<NUM_SIMULATIONS] s) = totalPrincipal s"
    if "paths s = paths st" for s
    using that by (metis sim_state.select_convs sim_state.surjective sim_state.update_convs(1))
  show "paths (month_step cfg False w st) = paths st"
    and "yearlyWithdrawals (month_step cfg False w st) = yearlyWithdrawals st"
    and "totalPrincipal (month_step cfg False w st) = totalPrincipal st"
    by (simp_all add: month_step_def Let_def f)
qed

lemma months_dead:
  assumes "all_dead st"
  shows "paths (fold (\<lambda>m. month_step cfg False w) ms st) = paths st \<and>
         yearlyWithdrawals (fold (\<lambda>m. month_step cfg False w) ms st) = yearlyWithdrawals st \<and>
         totalPrincipal (fold (\<lambda>m. month_step cfg False w) ms st) = totalPrincipal st"
  using assms
proof (induction ms arbitrary: st)
  case Nil
  then show ?case by simp
next
  case (Cons m ms)
  have "all_dead (month_step cfg False w st)"
    using Cons.prems by (simp add: all_dead_def month_step_dead [OF Cons.prems])
  from Cons.IH [OF this] show ?case
    by (simp add: month_step_dead [OF Cons.prems])
qed

lemma year_body_dead:
  assumes "all_dead st" "\<not> isContributing_at cfg y"
  shows "paths (year_body cfg y st) = paths st"
    and "yearlyWithdrawals (year_body cfg y st) = map_option (map (\<lambda>_. 0)) (yearlyWithdrawals st)"
    and "totalPrincipal (year_body cfg y st) = totalPrincipal st"
proof -
  let ?st1 = "st\<lparr> yearlyWithdrawals := map_option (map (\<lambda>_. 0)) (yearlyWithdrawals st) \<rparr>"
  have "all_dead ?st1" using assms(1) by (simp add: all_dead_def)
  from months_dead [OF this, of cfg "isWithdrawing_at cfg y" "[0..<12]"]
  show "paths (year_body cfg y st) = paths st"
    and "yearlyWithdrawals (year_body cfg y st) = map_option (map (\<lambda>_. 0)) (yearlyWithdrawals st)"
    and "totalPrincipal (year_body cfg y st) = totalPrincipal st"
    using assms(2) by (simp_all add: year_body_def Let_def)
qed

lemma run_years_dead:
  assumes "initialAmount cfg = 0" "contributionYears cfg = 0"
  shows "paths (run_years cfg n) = replicate NUM_SIMULATIONS 0 \<and>
         totalPrincipal (run_years cfg n) = 0"
proof (induction n)
  case 0
  then show ?case using assms by (simp add: run_years_0 init_state_def)
next
  case (Suc n)
  have d: "all_dead (run_years cfg n)"
    using Suc by (simp add: all_dead_def list_all_length)
  have c: "\<not> isContributing_at cfg (Suc n)"
    using assms(2) by (simp add: isContributing_at_def)
  show ?case
    using Suc by (simp add: run_years_Suc year_body_dead [OF d c])
qed

text \<open>
  Claim C1. \<open>failureProbability \<ge> depletionProbability\<close> holds whenever the total principal
  at the end is positive (\<open>failure_ge_depletion\<close> above). With nothing invested and nothing
  contributed the total principal is 0: every path is at 0, none is strictly below the
  principal, and all count as depleted. For \<open>empty_portfolio\<close> the failure probability is 0
  and the depletion probability is 1.
\<close>

theorem C1_empty_portfolio:
  "failureProbability (simulateMonteCarlo empty_portfolio) = 0 \<and>
   depletionProbability (simulateMonteCarlo empty_portfolio) = 1"
proof -
  have a: "initialAmount empty_portfolio = 0" "contributionYears empty_portfolio = 0"
    by (simp_all add: empty_portfolio_def)
  have t: "totalYears empty_portfolio = 1" "isWithdrawing_at empty_portfolio (Suc 0)"
    by (simp_all add: totalYears_def isWithdrawing_at_def empty_portfolio_def)
  show ?thesis
    using run_years_dead [OF a, of 1]
    by (simp add: failureProbability_sim depletionProbability_cases t filter_replicate
          NUM_SIMULATIONS_def)
qed

subsection \<open>The withdrawal mode\<close>

lemma consts_ignore_monthlyWithdrawal [simp]:
  "isRateMode (cfg\<lparr> monthlyWithdrawal := m \<rparr>) = isRateMode cfg"
  "taxRate (cfg\<lparr> monthlyWithdrawal := m \<rparr>) = taxRate cfg"
  "monthlyDrift (cfg\<lparr> monthlyWithdrawal := m \<rparr>) = monthlyDrift cfg"
  "monthlySigma (cfg\<lparr> monthlyWithdrawal := m \<rparr>) = monthlySigma cfg"
  "monthlyPensionIncome_d (cfg\<lparr> monthlyWithdrawal := m \<rparr>) = monthlyPensionIncome_d cfg"
  "inflationAdjustedWithdrawal_d (cfg\<lparr> monthlyWithdrawal := m \<rparr>) = inflationAdjustedWithdrawal_d cfg"
  "monthlyInflationFactor (cfg\<lparr> monthlyWithdrawal := m \<rparr>) = monthlyInflationFactor cfg"
  "monthlyNominalDeflator (cfg\<lparr> monthlyWithdrawal := m \<rparr>) = monthlyNominalDeflator cfg"
  "totalYears (cfg\<lparr> monthlyWithdrawal := m \<rparr>) = totalYears cfg"
  "isContributing_at (cfg\<lparr> monthlyWithdrawal := m \<rparr>) = isContributing_at cfg"
  "isWithdrawing_at (cfg\<lparr> monthlyWithdrawal := m \<rparr>) = isWithdrawing_at cfg"
  "year0 (cfg\<lparr> monthlyWithdrawal := m \<rparr>) = year0 cfg"
  by (simp_all add: isRateMode_def taxRate_def monthlyDrift_def monthlySigma_def mu_def sigma_def
        ri_def expenseRatio_d_def monthlyPensionIncome_d_def inflationAdjustedWithdrawal_d_def
        monthlyInflationFactor_def monthlyNominalDeflator_def totalYears_def
        isContributing_at_def isWithdrawing_at_def year0_def fun_eq_iff)

lemma lock_in_rate:
  "lock_in (cfg\<lparr> monthlyWithdrawal := m \<rparr>) i (st\<lparr> currentMonthlyWithdrawal := x \<rparr>) = lock_in cfg i st"
  by (simp add: lock_in_def split: option.splits)

lemma lock_in_Some: "has_lock st \<Longrightarrow> lock_in cfg i st \<noteq> None"
  by (auto simp: lock_in_def has_lock_def split: option.splits)

lemma baseWithdrawal_rate:
  assumes "isRateMode cfg" "has_lock st"
  shows "baseWithdrawal (cfg\<lparr> monthlyWithdrawal := m \<rparr>) i (st\<lparr> currentMonthlyWithdrawal := x \<rparr>) =
         baseWithdrawal cfg i st"
  using assms lock_in_Some [OF assms(2), of cfg i]
  by (auto simp: baseWithdrawal_def lock_in_rate split: option.splits)

lemma path_withdraw_rate:
  assumes "isRateMode cfg" "has_lock st"
  shows "path_withdraw (cfg\<lparr> monthlyWithdrawal := m \<rparr>) i (st\<lparr> currentMonthlyWithdrawal := x \<rparr>) =
         (path_withdraw cfg i st)\<lparr> currentMonthlyWithdrawal := x \<rparr>"
  by (simp add: path_withdraw_def baseWithdrawal_rate [OF assms] lock_in_rate split: prod.splits)

lemma path_withdraw_iwa:
  assumes "has_lock st"
  shows "has_lock (path_withdraw cfg i st)"
proof -
  have "initialWithdrawalAmount (path_withdraw cfg i st) = lock_in cfg i st"
    by (simp add: path_withdraw_def split: prod.splits)
  then show ?thesis using lock_in_Some [OF assms, of cfg i] by (simp add: has_lock_def)
qed

lemma path_grow_rate:
  "path_grow (cfg\<lparr> monthlyWithdrawal := m \<rparr>) c i (st\<lparr> currentMonthlyWithdrawal := x \<rparr>) =
   (path_grow cfg c i st)\<lparr> currentMonthlyWithdrawal := x \<rparr>"
  by (simp add: path_grow_def Let_def split: prod.splits)

lemma path_grow_iwa [simp]:
  "initialWithdrawalAmount (path_grow cfg c i st) = initialWithdrawalAmount st"
  by (simp add: path_grow_def Let_def split: prod.splits)

lemma path_step_rate:
  assumes "isRateMode cfg" "has_lock st"
  shows "path_step (cfg\<lparr> monthlyWithdrawal := m \<rparr>) c w i (st\<lparr> currentMonthlyWithdrawal := x \<rparr>) =
         (path_step cfg c w i st)\<lparr> currentMonthlyWithdrawal := x \<rparr>"
proof -
  have i: "has_lock (path_grow cfg c i st)"
    using assms(2) by (simp add: has_lock_def)
  show ?thesis
    by (simp add: path_step_def Let_def path_grow_rate path_withdraw_rate [OF assms(1) i])
qed

lemma path_step_iwa:
  assumes "has_lock st"
  shows "has_lock (path_step cfg c w i st)"
proof -
  have i: "has_lock (path_grow cfg c i st)"
    using assms by (simp add: has_lock_def)
  show ?thesis
    using i path_withdraw_iwa [OF i, of cfg i] by (simp add: path_step_def Let_def)
qed

lemma paths_loop_iwa:
  "has_lock st \<Longrightarrow>
   has_lock (fold (path_step cfg c w) ixs st)"
  by (induction ixs arbitrary: st) (simp_all add: path_step_iwa)

lemma paths_loop_rate:
  assumes "isRateMode cfg" "has_lock st"
  shows "fold (path_step (cfg\<lparr> monthlyWithdrawal := m \<rparr>) c w) ixs (st\<lparr> currentMonthlyWithdrawal := x \<rparr>) =
         (fold (path_step cfg c w) ixs st)\<lparr> currentMonthlyWithdrawal := x \<rparr>"
  using assms(2)
proof (induction ixs arbitrary: st)
  case Nil
  then show ?case by simp
next
  case (Cons i ixs)
  show ?case
    using Cons.IH [OF path_step_iwa [OF Cons.prems]]
    by (simp add: path_step_rate [OF assms(1) Cons.prems])
qed

lemma month_begin_rate:
  assumes "isRateMode cfg"
  shows "month_begin (cfg\<lparr> monthlyWithdrawal := m \<rparr>) w (st\<lparr> currentMonthlyWithdrawal := x \<rparr>) =
         (month_begin cfg w st)\<lparr> currentMonthlyWithdrawal := x \<rparr>"
  using assms by (simp add: month_begin_def Let_def)

lemma month_begin_lock [simp]: "has_lock (month_begin cfg w st) = has_lock st"
  by (simp add: has_lock_def)

lemma month_step_rate:
  assumes "isRateMode cfg" "has_lock st"
  shows "month_step (cfg\<lparr> monthlyWithdrawal := m \<rparr>) c w (st\<lparr> currentMonthlyWithdrawal := x \<rparr>) =
         (month_step cfg c w st)\<lparr> currentMonthlyWithdrawal := x \<rparr>"
proof -
  have l: "has_lock (month_begin cfg w st)" using assms(2) by simp
  show ?thesis
    by (simp add: month_step_def Let_def month_begin_rate [OF assms(1)]
          paths_loop_rate [OF assms(1) l])
qed

lemma has_lock_upd [simp]:
  "has_lock (st\<lparr> currentMonthlyWithdrawal := x \<rparr>) = has_lock st"
  "has_lock (st\<lparr> rateDeflationMultiplier := d \<rparr>) = has_lock st"
  "has_lock (st\<lparr> rateWithdrawalStarted := b \<rparr>) = has_lock st"
  "has_lock (st\<lparr> totalPrincipal := t \<rparr>) = has_lock st"
  "has_lock (st\<lparr> yearlyWithdrawals := yw \<rparr>) = has_lock st"
  "has_lock (st\<lparr> sorted_arr := srt \<rparr>) = has_lock st"
  "has_lock (st\<lparr> yearlyData_acc := acc \<rparr>) = has_lock st"
  by (simp_all add: has_lock_def)

lemma month_step_iwa:
  "has_lock st \<Longrightarrow> has_lock (month_step cfg c w st)"
  by (simp add: month_step_def Let_def paths_loop_iwa)

lemma months_rate:
  assumes "isRateMode cfg" "has_lock st"
  shows "fold (\<lambda>month. month_step (cfg\<lparr> monthlyWithdrawal := m \<rparr>) c w) ms (st\<lparr> currentMonthlyWithdrawal := x \<rparr>) =
         (fold (\<lambda>month. month_step cfg c w) ms st)\<lparr> currentMonthlyWithdrawal := x \<rparr> \<and>
         has_lock (fold (\<lambda>month. month_step cfg c w) ms st)"
  using assms(2)
proof (induction ms arbitrary: st)
  case Nil
  then show ?case by simp
next
  case (Cons a ms)
  show ?case
    using Cons.IH [OF month_step_iwa [OF Cons.prems]]
    by (simp add: month_step_rate [OF assms(1) Cons.prems])
qed

lemma snapshot_rate:
  "snapshot (cfg\<lparr> monthlyWithdrawal := m \<rparr>) y (st\<lparr> currentMonthlyWithdrawal := x \<rparr>) = snapshot cfg y st"
  by (simp add: snapshot_def Let_def)

lemma year_step_rate:
  assumes "isRateMode cfg" "has_lock st"
  shows "year_step (cfg\<lparr> monthlyWithdrawal := m \<rparr>) y (st\<lparr> currentMonthlyWithdrawal := x \<rparr>) =
         (year_step cfg y st)\<lparr> currentMonthlyWithdrawal := x \<rparr> \<and>
         has_lock (year_step cfg y st)"
proof -
  let ?st1 = "st\<lparr> yearlyWithdrawals := map_option (map (\<lambda>_. 0)) (yearlyWithdrawals st) \<rparr>"
  have i: "has_lock ?st1" using assms(2) by simp
  have s: "st\<lparr> currentMonthlyWithdrawal := x, yearlyWithdrawals := v \<rparr> =
           st\<lparr> yearlyWithdrawals := v, currentMonthlyWithdrawal := x \<rparr>" for v
    by simp
  note r = months_rate [OF assms(1) i, of m "isContributing_at cfg y" "isWithdrawing_at cfg y" "[0..<12]" x]
  have b: "year_body (cfg\<lparr> monthlyWithdrawal := m \<rparr>) y (st\<lparr> currentMonthlyWithdrawal := x \<rparr>) =
           (year_body cfg y st)\<lparr> currentMonthlyWithdrawal := x \<rparr>"
    using r by (simp add: year_body_def Let_def s)
  have "has_lock (year_body cfg y st)"
    using r by (simp add: year_body_def Let_def)
  then show ?thesis
    by (simp add: year_step_def Let_def b snapshot_rate)
qed

lemma run_years_rate:
  assumes "isRateMode cfg"
  shows "run_years (cfg\<lparr> monthlyWithdrawal := m \<rparr>) n =
         (run_years cfg n)\<lparr> currentMonthlyWithdrawal := monthlyWithdrawal_d (cfg\<lparr> monthlyWithdrawal := m \<rparr>) \<rparr> \<and>
         has_lock (run_years cfg n)"
proof (induction n)
  case 0
  then show ?case using assms by (simp add: run_years_0 init_state_def has_lock_def)
next
  case (Suc n)
  then show ?case
    using year_step_rate [OF assms, of "run_years cfg n" m "Suc n"]
    by (simp add: run_years_Suc)
qed

lemma simulate_ignores_monthlyWithdrawal:
  assumes "isRateMode cfg"
  shows "simulateMonteCarlo (cfg\<lparr> monthlyWithdrawal := m \<rparr>) = simulateMonteCarlo cfg"
  by (simp add: simulateMonteCarlo_def Let_def run_years_rate [OF assms] split: list.splits)

lemma baseWithdrawal_locked:
  assumes "annualWithdrawalRate cfg = Some r" "r > 0" "initialWithdrawalAmount st = Some a" "i < length a"
  shows "baseWithdrawal cfg i st =
         (if a ! i = 0 then paths st ! i * r / 100 / 12 else a ! i) * rateDeflationMultiplier st"
  using assms by (simp add: baseWithdrawal_def lock_in_def isRateMode_def)

lemma baseWithdrawal_fixed:
  assumes "\<not> isRateMode cfg"
  shows "baseWithdrawal cfg i st = currentMonthlyWithdrawal st"
  using assms by (simp add: baseWithdrawal_def split: option.splits)

text \<open>
  Claim C2, as stated, fails: with both fields populated and \<open>annualWithdrawalRate = 0\<close> the
  run is not in rate mode (\<open>isRateMode\<close> asks for a rate above 0), the rate-mode arrays do
  not exist, and the withdrawal is the fixed \<open>monthlyWithdrawal\<close>.
\<close>

theorem C2_both_populated_zero_rate:
  "monthlyWithdrawal both_modes_zero_rate = Some 150000 \<and>
   annualWithdrawalRate both_modes_zero_rate = Some 0 \<and>
   \<not> isRateMode both_modes_zero_rate \<and>
   yearlyWithdrawals (init_state both_modes_zero_rate) = None \<and>
   baseWithdrawal both_modes_zero_rate 0 (init_state both_modes_zero_rate) = 150000"
proof -
  have n: "\<not> isRateMode both_modes_zero_rate"
    by (simp add: isRateMode_def both_modes_zero_rate_def)
  have "currentMonthlyWithdrawal (init_state both_modes_zero_rate) = 150000"
    by (simp add: init_state_def monthlyWithdrawal_d_def both_modes_zero_rate_def)
  then show ?thesis
    using n by (simp add: baseWithdrawal_fixed init_state_def) (simp add: both_modes_zero_rate_def)
qed

text \<open>
  Claim C2, amended. With both \<open>monthlyWithdrawal\<close> and \<open>annualWithdrawalRate\<close> populated, the
  run is in rate mode exactly when the rate is above 0. Then the result does not depend on
  \<open>monthlyWithdrawal\<close> (any other value of the field gives the same result) and the base
  withdrawal of a path is its locked amount (set to value times rate / 100 / 12 while it
  is 0) times the deflation multiplier. With a rate of 0 or below, the base withdrawal is
  the fixed amount, which starts at \<open>monthlyWithdrawal\<close>.
\<close>

theorem C2_rate_mode_priority:
  assumes "monthlyWithdrawal cfg = Some mw" and "annualWithdrawalRate cfg = Some r"
  shows "isRateMode cfg = (r > 0) \<and>
         (r > 0 \<longrightarrow>
            simulateMonteCarlo (cfg\<lparr> monthlyWithdrawal := m \<rparr>) = simulateMonteCarlo cfg \<and>
            (initialWithdrawalAmount st = Some a \<and> i < length a \<longrightarrow>
               baseWithdrawal cfg i st =
                 (if a ! i = 0 then paths st ! i * r / 100 / 12 else a ! i) *
                 rateDeflationMultiplier st)) \<and>
         (r \<le> 0 \<longrightarrow>
            currentMonthlyWithdrawal (init_state cfg) = mw \<and>
            baseWithdrawal cfg i st = currentMonthlyWithdrawal st)"
proof -
  have m: "isRateMode cfg = (r > 0)"
    using assms(2) by (simp add: isRateMode_def)
  have "currentMonthlyWithdrawal (init_state cfg) = mw"
    using assms(1) by (simp add: init_state_def monthlyWithdrawal_d_def)
  then show ?thesis
    using m simulate_ignores_monthlyWithdrawal [of cfg m] baseWithdrawal_locked [OF assms(2), of st a i]
      baseWithdrawal_fixed [of cfg i st]
    by auto
qed

theorem C2_rate_mode_priority_witness:
  "isRateMode both_modes \<and>
   simulateMonteCarlo (both_modes\<lparr> monthlyWithdrawal := Some 0 \<rparr>) = simulateMonteCarlo both_modes \<and>
   baseWithdrawal both_modes 0 (init_state both_modes) = 10000000 * 4 / 100 / 12"
proof -
  have a: "monthlyWithdrawal both_modes = Some 150000" "annualWithdrawalRate both_modes = Some 4"
    by (simp_all add: both_modes_def)
  have r: "isRateMode both_modes" by (simp add: isRateMode_def both_modes_def)
  have i: "initialWithdrawalAmount (init_state both_modes) = Some (replicate NUM_SIMULATIONS 0)"
    "paths (init_state both_modes) ! 0 = 10000000"
    "rateDeflationMultiplier (init_state both_modes) = 1"
    using r by (simp_all add: init_state_def NUM_SIMULATIONS_def both_modes_def)
  show ?thesis
    using C2_rate_mode_priority [OF a, of "Some 0" "init_state both_modes" "replicate NUM_SIMULATIONS 0" 0]
    by (simp add: i) (simp add: NUM_SIMULATIONS_def)
qed

subsection \<open>The loop over the paths, path by path\<close>

lemma wf_path_withdraw: "wf_state st \<Longrightarrow> wf_state (path_withdraw cfg i st)"
  by (auto simp: wf_state_def path_withdraw_def lock_in_def split: prod.splits option.splits)

lemma wf_path_grow: "wf_state st \<Longrightarrow> wf_state (path_grow cfg c i st)"
  by (auto simp: wf_state_def path_grow_def Let_def split: prod.splits option.splits)

lemma wf_path_step: "wf_state st \<Longrightarrow> wf_state (path_step cfg c w i st)"
  by (simp add: path_step_def Let_def wf_path_grow wf_path_withdraw)

lemma path_grow_view:
  assumes "wf_state st" "i < NUM_SIMULATIONS"
  shows "path_view i (path_grow cfg c i st) =
     (fst (path_view i st) * exp (monthlyDrift cfg + monthlySigma cfg * fst (normalRandom (rng st))) +
        (if c then monthlyContribution cfg else 0),
      fst (snd (path_view i st)) + (if c then monthlyContribution cfg else 0),
      snd (snd (path_view i st)))"
  using assms
  by (simp add: path_view_def path_grow_def wf_state_def Let_def split: prod.splits)

lemma path_withdraw_view:
  assumes "wf_state st" "i < NUM_SIMULATIONS" "path_view i st = (v, b, yw, iwa)"
  shows "path_view i (path_withdraw cfg i st) =
     (let iwa' = (case (annualWithdrawalRate cfg, iwa) of
                            (Some r, Some a) \<Rightarrow>
                              if isRateMode cfg \<and> a = 0 then Some (v * r / 100 / 12) else Some a
                          | (_, x) \<Rightarrow> x);
                  base = (case iwa' of
                            Some a \<Rightarrow> if isRateMode cfg then a * rateDeflationMultiplier st
                                      else currentMonthlyWithdrawal st
                          | None \<Rightarrow> currentMonthlyWithdrawal st);
                  (netWithdrawal, taxOnWithdrawal, b', v') =
                     withdraw_amounts (taxRate cfg) v b base (monthlyPensionIncome_d cfg)
              in (v', b', map_option (\<lambda>y. y + netWithdrawal) yw, iwa'))"
  using assms
  by (auto simp: path_view_def path_withdraw_def baseWithdrawal_def lock_in_def wf_state_def Let_def
        split: prod.splits option.splits)

lemma path_grow_scalars [simp]:
  "rateDeflationMultiplier (path_grow cfg c i st) = rateDeflationMultiplier st"
  "currentMonthlyWithdrawal (path_grow cfg c i st) = currentMonthlyWithdrawal st"
  "totalPrincipal (path_grow cfg c i st) = totalPrincipal st"
  by (simp_all add: path_grow_def Let_def split: prod.splits)

lemma path_step_view:
  assumes "wf_state st" "i < NUM_SIMULATIONS"
  shows "path_view i (path_step cfg c w i st) =
         path_month cfg c w (rateDeflationMultiplier st) (currentMonthlyWithdrawal st)
           (fst (normalRandom (rng st))) (path_view i st)"
proof -
  obtain v b yw iwa where pv: "path_view i st = (v, b, yw, iwa)"
    by (cases "path_view i st") auto
  define v1 where "v1 = v * exp (monthlyDrift cfg + monthlySigma cfg * fst (normalRandom (rng st))) +
        (if c then monthlyContribution cfg else 0)"
  define b1 where "b1 = b + (if c then monthlyContribution cfg else 0)"
  define g where "g = path_grow cfg c i st"
  have gv: "path_view i g = (v1, b1, yw, iwa)"
    using path_grow_view [OF assms, of cfg c] by (simp add: pv v1_def b1_def g_def)
  have p: "paths g ! i = v1" using gv by (simp add: path_view_def)
  have wg: "wf_state g" unfolding g_def by (rule wf_path_grow [OF assms(1)])
  have sc: "rateDeflationMultiplier g = rateDeflationMultiplier st"
    "currentMonthlyWithdrawal g = currentMonthlyWithdrawal st"
    by (simp_all add: g_def)
  have l: "path_view i (path_step cfg c w i st) =
      (if w \<and> v1 > 0 then path_view i (path_withdraw cfg i g) else (v1, b1, yw, iwa))"
    by (simp add: path_step_def Let_def g_def [symmetric] p gv)
  have r: "path_month cfg c w (rateDeflationMultiplier st) (currentMonthlyWithdrawal st)
           (fst (normalRandom (rng st))) (v, b, yw, iwa) =
      (if w \<and> v1 > 0 then path_view i (path_withdraw cfg i g) else (v1, b1, yw, iwa))"
    unfolding path_month_def path_withdraw_view [OF wg assms(2) gv] sc
    by (simp only: prod.case Let_def v1_def [symmetric] b1_def [symmetric])
  show ?thesis unfolding pv l r ..
qed

lemma path_step_frame:
  assumes "i \<noteq> j"
  shows "path_view j (path_step cfg c w i st) = path_view j st"
proof -
  have g: "path_view j (path_grow cfg c i s) = path_view j s" for s
    using assms by (simp add: path_view_def path_grow_def Let_def split: prod.splits)
  have "path_view j (path_withdraw cfg i s) = path_view j s" for s
    using assms
    by (auto simp: path_view_def path_withdraw_def lock_in_def Let_def option.map_comp comp_def
          split: prod.splits option.splits)
  then show ?thesis
    by (simp add: path_step_def Let_def g)
qed

lemma paths_loop_views:
  assumes wf: "wf_state st"
    and pre: "\<forall>j < NUM_SIMULATIONS. A (path_view j st)"
    and step: "\<And>i z x. i < NUM_SIMULATIONS \<Longrightarrow> A x \<Longrightarrow>
        B (path_month cfg c w (rateDeflationMultiplier st) (currentMonthlyWithdrawal st) z x)"
  shows "\<forall>j < NUM_SIMULATIONS. B (path_view j (fold (path_step cfg c w) [0..<NUM_SIMULATIONS] st))"
proof -
  have "k \<le> NUM_SIMULATIONS \<Longrightarrow>
        wf_state (fold (path_step cfg c w) [0..<k] st) \<and>
        (\<forall>j < NUM_SIMULATIONS.
           if j < k then B (path_view j (fold (path_step cfg c w) [0..<k] st))
           else A (path_view j (fold (path_step cfg c w) [0..<k] st)))" for k
  proof (induction k)
    case 0
    then show ?case using wf pre by simp
  next
    case (Suc k)
    let ?s = "fold (path_step cfg c w) [0..<k] st"
    have ih: "wf_state ?s" "\<forall>j < NUM_SIMULATIONS. if j < k then B (path_view j ?s) else A (path_view j ?s)"
      using Suc by simp_all
    have k: "k < NUM_SIMULATIONS" using Suc.prems by simp
    have e: "fold (path_step cfg c w) [0..<Suc k] st = path_step cfg c w k ?s" by simp
    have "A (path_view k ?s)" using ih(2) k by auto
    then have bk: "B (path_view k (path_step cfg c w k ?s))"
      using step [OF k, of "path_view k ?s" "fst (normalRandom (rng ?s))"]
      by (simp add: path_step_view [OF ih(1) k])
    have "if j < Suc k then B (path_view j (path_step cfg c w k ?s))
          else A (path_view j (path_step cfg c w k ?s))" if "j < NUM_SIMULATIONS" for j
    proof (cases "j = k")
      case True
      then show ?thesis using bk by simp
    next
      case False
      then have "path_view j (path_step cfg c w k ?s) = path_view j ?s"
        by (intro path_step_frame) simp
      then show ?thesis using ih(2) that False by (auto simp: less_Suc_eq)
    qed
    then show ?case
      unfolding e using wf_path_step [OF ih(1)] by blast
  qed
  from this [of NUM_SIMULATIONS] show ?thesis by simp
qed

subsection \<open>The cost basis\<close>

lemma withdraw_amounts_bounds:
  assumes "v > 0" "0 \<le> b"
  shows "case withdraw_amounts rate v b base pension of
           (n, tx, b', v') \<Rightarrow> 0 \<le> n \<and> 0 \<le> b' \<and> b' \<le> b \<and> 0 \<le> v'"
proof -
  define n where "n = max (base - pension) 0"
  have n: "0 \<le> n" by (simp add: n_def)
  then have "0 \<le> n / v" using assms(1) by simp
  then have r: "0 \<le> min (n / v) 1" "min (n / v) 1 \<le> 1" by simp_all
  have "0 \<le> b * (1 - min (n / v) 1)" using r assms(2) by simp
  moreover have "b * (1 - min (n / v) 1) \<le> b * 1"
    using r assms(2) by (intro mult_left_mono) simp_all
  ultimately show ?thesis
    using n by (simp add: withdraw_amounts_def Let_def n_def [symmetric])
qed

lemma path_month_basis:
  assumes "0 \<le> monthlyContribution cfg" "0 \<le> b" "b \<le> T"
  shows "0 \<le> fst (snd (path_month cfg c w mult cmw z (v, b, yw, iwa))) \<and>
         fst (snd (path_month cfg c w mult cmw z (v, b, yw, iwa)))
           \<le> T + (if c then monthlyContribution cfg else 0)"
proof -
  define v1 where "v1 = v * exp (monthlyDrift cfg + monthlySigma cfg * z) +
              (if c then monthlyContribution cfg else 0)"
  define b1 where "b1 = b + (if c then monthlyContribution cfg else 0)"
  have b1: "0 \<le> b1" "b1 \<le> T + (if c then monthlyContribution cfg else 0)"
    using assms by (simp_all add: b1_def)
  define iwa' where "iwa' = (case annualWithdrawalRate cfg of
                            None \<Rightarrow> iwa
                          | Some r \<Rightarrow>
                              (case iwa of
                                 None \<Rightarrow> None
                               | Some a \<Rightarrow>
                                   if isRateMode cfg \<and> a = 0 then Some (v1 * r / 100 / 12)
                                   else Some a))"
  define base where "base = (case iwa' of
                            Some a \<Rightarrow> if isRateMode cfg then a * mult else cmw
                          | None \<Rightarrow> cmw)"
  obtain n tx b' v' where wa:
    "withdraw_amounts (taxRate cfg) v1 b1 base (monthlyPensionIncome_d cfg) = (n, tx, b', v')"
    by (cases "withdraw_amounts (taxRate cfg) v1 b1 base (monthlyPensionIncome_d cfg)") auto
  have pm: "path_month cfg c w mult cmw z (v, b, yw, iwa) =
      (if w \<and> v1 > 0 then (v', b', map_option (\<lambda>y. y + n) yw, iwa') else (v1, b1, yw, iwa))"
    unfolding path_month_def prod.case Let_def v1_def [symmetric] b1_def [symmetric]
      iwa'_def [symmetric] base_def [symmetric] wa
    by simp
  show ?thesis
  proof (cases "w \<and> v1 > 0")
    case True
    then have v: "v1 > 0" by simp
    from withdraw_amounts_bounds [OF v b1(1), of "taxRate cfg" base "monthlyPensionIncome_d cfg"]
    have "0 \<le> b'" "b' \<le> b1" unfolding wa by simp_all
    then show ?thesis unfolding pm using True b1 by simp
  next
    case False
    then show ?thesis unfolding pm using b1 by auto
  qed
qed

lemma wf_paths_loop: "wf_state st \<Longrightarrow> wf_state (fold (path_step cfg c w) ixs st)"
  by (induction ixs arbitrary: st) (simp_all add: wf_path_step)

lemma wf_month_begin [simp]: "wf_state (month_begin cfg w st) = wf_state st"
  by (simp add: wf_state_def)

lemma wf_month_step: "wf_state st \<Longrightarrow> wf_state (month_step cfg c w st)"
proof -
  assume "wf_state st"
  then have "wf_state (fold (path_step cfg c w) [0..<NUM_SIMULATIONS] (month_begin cfg w st))"
    by (intro wf_paths_loop) simp
  then show ?thesis by (cases c) (simp_all add: month_step_def Let_def wf_state_def)
qed

lemma wf_months: "wf_state st \<Longrightarrow> wf_state (fold (\<lambda>month. month_step cfg c w) ms st)"
  by (induction ms arbitrary: st) (simp_all add: wf_month_step)

lemma wf_year_step: "wf_state st \<Longrightarrow> wf_state (year_step cfg y st)"
proof -
  assume wf: "wf_state st"
  let ?st1 = "st\<lparr> yearlyWithdrawals := map_option (map (\<lambda>_. 0)) (yearlyWithdrawals st) \<rparr>"
  have "wf_state ?st1" using wf by (auto simp: wf_state_def split: option.splits)
  then have "wf_state (fold (\<lambda>month. month_step cfg (isContributing_at cfg y) (isWithdrawing_at cfg y))
                  [0..<12] ?st1)"
    by (rule wf_months)
  then show ?thesis
    by (simp add: year_step_def year_body_def Let_def wf_state_def)
qed

lemma wf_init_state: "wf_state (init_state cfg)"
  by (simp add: init_state_def wf_state_def)

lemma wf_run_years: "wf_state (run_years cfg n)"
proof (induction n)
  case 0
  show ?case unfolding run_years_0 by (rule wf_init_state)
next
  case (Suc n)
  then show ?case unfolding run_years_Suc by (rule wf_year_step)
qed

lemma wf_run_months: "wf_state (run_months cfg n k)"
proof -
  have "wf_state ((run_years cfg n)\<lparr> yearlyWithdrawals :=
           map_option (map (\<lambda>_. 0)) (yearlyWithdrawals (run_years cfg n)) \<rparr>)"
    using wf_run_years [of cfg n] by (auto simp: wf_state_def split: option.splits)
  then show ?thesis unfolding run_months_def by (rule wf_months)
qed

lemma costBasis_view: "costBasis st ! j = fst (snd (path_view j st))"
  by (simp add: path_view_def)

lemma month_step_basis:
  assumes "0 \<le> monthlyContribution cfg" "basis_inv st"
  shows "basis_inv (month_step cfg c w st)"
proof -
  let ?s = "month_begin cfg w st"
  let ?T = "totalPrincipal st"
  let ?A = "\<lambda>x. 0 \<le> fst (snd x) \<and> fst (snd x) \<le> ?T"
  let ?B = "\<lambda>x. 0 \<le> fst (snd x) \<and> fst (snd x) \<le> ?T + (if c then monthlyContribution cfg else 0)"
  have wf: "wf_state ?s" using assms(2) by (simp add: basis_inv_def)
  have pre: "\<forall>j < NUM_SIMULATIONS. ?A (path_view j ?s)"
    using assms(2) by (simp add: basis_inv_def list_all_iff path_view_def)
  have step: "?B (path_month cfg c w (rateDeflationMultiplier ?s) (currentMonthlyWithdrawal ?s) z x)"
    if "?A x" for z x
    using that path_month_basis [OF assms(1), of "fst (snd x)" ?T c w _ _ z "fst x" "fst (snd (snd x))" "snd (snd (snd x))"]
    by simp
  have post: "\<forall>j < NUM_SIMULATIONS. ?B (path_view j (fold (path_step cfg c w) [0..<NUM_SIMULATIONS] ?s))"
    by (rule paths_loop_views [OF wf pre]) (rule step)
  have t: "totalPrincipal (month_step cfg c w st) = ?T + (if c then monthlyContribution cfg else 0)"
    by (simp add: month_step_def Let_def)
  have cb: "costBasis (month_step cfg c w st) =
            costBasis (fold (path_step cfg c w) [0..<NUM_SIMULATIONS] ?s)"
    by (simp add: month_step_def Let_def)
  have "wf_state (month_step cfg c w st)"
    using assms(2) by (simp add: basis_inv_def wf_month_step)
  then show ?thesis
    using post unfolding basis_inv_def t cb list_all_iff costBasis_view by simp
qed

lemma months_basis:
  assumes "0 \<le> monthlyContribution cfg" "basis_inv st"
  shows "basis_inv (fold (\<lambda>month. month_step cfg c w) ms st)"
  using assms(2) by (induction ms arbitrary: st) (simp_all add: month_step_basis [OF assms(1)])

lemma year_body_months:
  "year_body cfg (Suc n) (run_years cfg n) =
     (run_months cfg n 12)\<lparr> sorted_arr := sort (paths (run_months cfg n 12)) \<rparr>"
  by (simp add: year_body_def run_months_def Let_def)

lemma basis_inv_upd [simp]:
  "basis_inv (st\<lparr> sorted_arr := srt \<rparr>) = basis_inv st"
  "basis_inv (st\<lparr> yearlyData_acc := acc \<rparr>) = basis_inv st"
  by (simp_all add: basis_inv_def wf_state_def)

lemma basis_inv_reset:
  "basis_inv st \<Longrightarrow> basis_inv (st\<lparr> yearlyWithdrawals := map_option (map (\<lambda>_. 0)) (yearlyWithdrawals st) \<rparr>)"
  by (auto simp: basis_inv_def wf_state_def split: option.splits)

lemma run_basis:
  assumes "0 \<le> initialAmount cfg" "0 \<le> monthlyContribution cfg"
  shows "basis_inv (run_years cfg n)" and "basis_inv (run_months cfg n k)"
proof -
  have m: "basis_inv (run_months cfg n k)" if "basis_inv (run_years cfg n)" for n k
    unfolding run_months_def by (intro months_basis [OF assms(2)] basis_inv_reset that)
  show y: "basis_inv (run_years cfg n)" for n
  proof (induction n)
    case 0
    then show ?case
      using assms(1) by (simp add: run_years_0 init_state_def basis_inv_def wf_state_def list_all_iff)
  next
    case (Suc n)
    then show ?case
      by (simp add: run_years_Suc year_step_def Let_def year_body_months m)
  qed
  show "basis_inv (run_months cfg n k)" by (rule m [OF y])
qed



lemma taxRate_nonneg: "0 \<le> taxRate cfg"
  by (simp add: taxRate_def TAX_RATE_def)

lemma withdraw_keeps_order:
  assumes "v > 0" "b \<le> v" "0 \<le> rate"
    and "max (base - pension) 0 * (1 + rate) \<le> v \<or> v \<le> max (base - pension) 0"
  shows "fst (snd (snd (withdraw_amounts rate v b base pension)))
         \<le> snd (snd (snd (withdraw_amounts rate v b base pension)))"
proof -
  define n where "n = max (base - pension) 0"
  define tx where "tx = n * max 0 ((v - b) / v) * rate"
  have n: "0 \<le> n" by (simp add: n_def)
  have g: "max 0 ((v - b) / v) = (v - b) / v" using assms(1,2) by simp
  have tx: "0 \<le> tx" using n assms(1,2,3) by (simp add: tx_def g)
  have e: "withdraw_amounts rate v b base pension =
           (n, tx, b * (1 - min (n / v) 1), max (v - n - tx) 0)"
    unfolding withdraw_amounts_eq [OF assms(1)] n_def tx_def ..
  have "b * (1 - min (n / v) 1) \<le> max (v - n - tx) 0"
    using assms(4) [unfolded n_def [symmetric]]
  proof
    assume a: "n * (1 + rate) \<le> v"
    have "n * rate \<ge> 0" using n assms(3) by simp
    then have nv: "n \<le> v" using a by (simp add: algebra_simps)
    then have m: "min (n / v) 1 = n / v" using assms(1) by simp
    have "v - n - tx - b * (1 - n / v) = (v - b) * (v - n * (1 + rate)) / v"
      using assms(1) by (simp add: tx_def g field_simps)
    moreover have "0 \<le> (v - b) * (v - n * (1 + rate)) / v"
      using assms(1,2) a by simp
    ultimately have "b * (1 - n / v) \<le> v - n - tx" by linarith
    then show ?thesis unfolding m by simp
  next
    assume a: "v \<le> n"
    then have "1 \<le> n / v" using assms(1) by simp
    then have m: "min (n / v) 1 = 1" by simp
    show ?thesis unfolding m by simp
  qed
  then show ?thesis unfolding e by simp
qed








text \<open>
  The second exception is real as well (\<open>withdrawal_can_invert\<close>: from the value 100 with
  cost basis 90, a withdrawal of 90 leaves the value 8.17165 and the cost basis 9). Where
  neither exception can occur, the steps compose over the whole run: without volatility,
  with a drift of at least 0 and tax-free withdrawal, the cost basis is at most the value
  for every path at every month boundary (\<open>basis_le_value_run\<close>). For inputs that are
  not negative the cost basis also stays within the total principal
  (\<open>cost_basis_within_principal\<close>).
\<close>

lemma withdraw_value_nonneg:
  "0 \<le> snd (snd (snd (withdraw_amounts rate v b base pension)))"
  by (simp add: withdraw_amounts_def Let_def)

lemma withdrawal_can_invert:
  "withdraw_amounts TAX_RATE 100 90 90 0 = (90, 182835 / 100000, 9, 817165 / 100000)"
  by (simp add: withdraw_amounts_def Let_def TAX_RATE_def)

lemma path_month_order:
  assumes "monthlySigma cfg = 0" "0 \<le> monthlyDrift cfg" "0 \<le> monthlyContribution cfg"
    and "taxRate cfg = 0" and "b \<le> v" "0 \<le> v"
  shows "fst (snd (path_month cfg c w mult cmw z (v, b, yw, iwa)))
           \<le> fst (path_month cfg c w mult cmw z (v, b, yw, iwa)) \<and>
         0 \<le> fst (path_month cfg c w mult cmw z (v, b, yw, iwa))"
proof -
  define v1 where "v1 = v * exp (monthlyDrift cfg + monthlySigma cfg * z) +
              (if c then monthlyContribution cfg else 0)"
  define b1 where "b1 = b + (if c then monthlyContribution cfg else 0)"
  have "1 \<le> exp (monthlyDrift cfg + monthlySigma cfg * z)"
    using assms(1,2) by simp
  then have "v * 1 \<le> v * exp (monthlyDrift cfg + monthlySigma cfg * z)"
    using assms(6) by (intro mult_left_mono) simp_all
  then have o: "b1 \<le> v1" "0 \<le> v1"
    using assms(3,5,6) by (simp_all add: v1_def b1_def)
  define iwa' where "iwa' = (case annualWithdrawalRate cfg of
                            None \<Rightarrow> iwa
                          | Some r \<Rightarrow>
                              (case iwa of
                                 None \<Rightarrow> None
                               | Some a \<Rightarrow>
                                   if isRateMode cfg \<and> a = 0 then Some (v1 * r / 100 / 12)
                                   else Some a))"
  define base where "base = (case iwa' of
                            Some a \<Rightarrow> if isRateMode cfg then a * mult else cmw
                          | None \<Rightarrow> cmw)"
  obtain n tx b' v' where wa:
    "withdraw_amounts (taxRate cfg) v1 b1 base (monthlyPensionIncome_d cfg) = (n, tx, b', v')"
    by (cases "withdraw_amounts (taxRate cfg) v1 b1 base (monthlyPensionIncome_d cfg)") auto
  have pm: "path_month cfg c w mult cmw z (v, b, yw, iwa) =
      (if w \<and> v1 > 0 then (v', b', map_option (\<lambda>y. y + n) yw, iwa') else (v1, b1, yw, iwa))"
    unfolding path_month_def prod.case Let_def v1_def [symmetric] b1_def [symmetric]
      iwa'_def [symmetric] base_def [symmetric] wa
    by simp
  show ?thesis
  proof (cases "w \<and> v1 > 0")
    case True
    then have p: "v1 > 0" by simp
    have d: "max (base - monthlyPensionIncome_d cfg) 0 * (1 + taxRate cfg) \<le> v1 \<or>
             v1 \<le> max (base - monthlyPensionIncome_d cfg) 0"
      unfolding assms(4) using o(2) by (auto simp: max_def)
    from withdraw_keeps_order [OF p o(1) taxRate_nonneg d]
    have "b' \<le> v'" unfolding wa by simp
    moreover have "0 \<le> v'"
      using withdraw_value_nonneg [of "taxRate cfg" v1 b1 base "monthlyPensionIncome_d cfg"]
      unfolding wa by simp
    ultimately show ?thesis unfolding pm using True by simp
  next
    case False
    then show ?thesis unfolding pm using o by auto
  qed
qed

lemma month_step_order:
  assumes "monthlySigma cfg = 0" "0 \<le> monthlyDrift cfg" "0 \<le> monthlyContribution cfg"
    and "taxRate cfg = 0" and "order_inv st"
  shows "order_inv (month_step cfg c w st)"
proof -
  let ?s = "month_begin cfg w st"
  let ?A = "\<lambda>x. fst (snd x) \<le> fst x \<and> 0 \<le> fst x"
  have wf: "wf_state ?s" using assms(5) by (simp add: order_inv_def)
  have pre: "\<forall>j < NUM_SIMULATIONS. ?A (path_view j ?s)"
    using assms(5) by (simp add: order_inv_def list_all_iff path_view_def)
  have step: "?A (path_month cfg c w (rateDeflationMultiplier ?s) (currentMonthlyWithdrawal ?s) z x)"
    if "?A x" for z x
    using that path_month_order [OF assms(1-4), of "fst (snd x)" "fst x" c w _ _ z
        "fst (snd (snd x))" "snd (snd (snd x))"]
    by simp
  have post: "\<forall>j < NUM_SIMULATIONS. ?A (path_view j (fold (path_step cfg c w) [0..<NUM_SIMULATIONS] ?s))"
    by (rule paths_loop_views [OF wf pre]) (rule step)
  have a: "costBasis (month_step cfg c w st) =
            costBasis (fold (path_step cfg c w) [0..<NUM_SIMULATIONS] ?s)"
    "paths (month_step cfg c w st) = paths (fold (path_step cfg c w) [0..<NUM_SIMULATIONS] ?s)"
    by (simp_all add: month_step_def Let_def)
  have "wf_state (month_step cfg c w st)"
    using assms(5) by (simp add: order_inv_def wf_month_step)
  then show ?thesis
    using post unfolding order_inv_def a list_all_iff by (simp add: path_view_def)
qed

lemma order_inv_upd [simp]:
  "order_inv (st\<lparr> sorted_arr := srt \<rparr>) = order_inv st"
  "order_inv (st\<lparr> yearlyData_acc := acc \<rparr>) = order_inv st"
  by (simp_all add: order_inv_def wf_state_def)

lemma order_inv_reset:
  "order_inv st \<Longrightarrow> order_inv (st\<lparr> yearlyWithdrawals := map_option (map (\<lambda>_. 0)) (yearlyWithdrawals st) \<rparr>)"
  by (auto simp: order_inv_def wf_state_def split: option.splits)

lemma run_order:
  assumes "volatility cfg = 0" "0 \<le> monthlyDrift cfg" "0 \<le> monthlyContribution cfg"
    and "taxFree cfg = Some True" and "0 \<le> initialAmount cfg"
  shows "order_inv (run_years cfg n)" and "order_inv (run_months cfg n k)"
proof -
  have s: "monthlySigma cfg = 0" using assms(1) by (simp add: monthlySigma_def sigma_def)
  have t: "taxRate cfg = 0" using assms(4) by (simp add: taxRate_def)
  have ms: "order_inv (fold (\<lambda>month. month_step cfg c w) xs st)" if "order_inv st" for c w xs st
    using that by (induction xs arbitrary: st) (simp_all add: month_step_order [OF s assms(2,3) t])
  have m: "order_inv (run_months cfg n k)" if "order_inv (run_years cfg n)" for n k
    unfolding run_months_def by (intro ms order_inv_reset that)
  show y: "order_inv (run_years cfg n)" for n
  proof (induction n)
    case 0
    then show ?case
      using assms(5) by (simp add: run_years_0 init_state_def order_inv_def wf_state_def list_all_iff)
  next
    case (Suc n)
    then show ?case
      by (simp add: run_years_Suc year_step_def Let_def year_body_months m)
  qed
  show "order_inv (run_months cfg n k)" by (rule m [OF y])
qed

lemma basis_le_value_run:
  assumes "volatility cfg = 0" "0 \<le> monthlyDrift cfg" "0 \<le> monthlyContribution cfg"
    and "taxFree cfg = Some True" and "0 \<le> initialAmount cfg" and "j < NUM_SIMULATIONS"
  shows "costBasis (run_months cfg n k) ! j \<le> paths (run_months cfg n k) ! j"
  using run_order(2) [OF assms(1-5), of n k] assms(6)
  by (simp add: order_inv_def list_all_iff)

lemma cost_basis_within_principal:
  assumes "0 \<le> initialAmount cfg" and "0 \<le> monthlyContribution cfg" and "j < NUM_SIMULATIONS"
  shows "0 \<le> costBasis (run_months cfg n k) ! j \<and>
         costBasis (run_months cfg n k) ! j \<le> totalPrincipal (run_months cfg n k)"
  using run_basis(2) [OF assms(1,2), of n k] assms(3)
  by (simp add: basis_inv_def list_all_iff)

subsection \<open>Scenario D: the median yearly withdrawal\<close>

lemma deflD_bounds: "0 < deflD" "deflD \<le> 1"
proof -
  have "(1::real) \<le> (1 + 3 / 100) powr (1 / 12)"
    by (rule ge_one_powr_ge_zero) simp_all
  then show "0 < deflD" "deflD \<le> 1"
    by (simp_all add: deflD_def)
qed

lemma deflD_12: "deflD ^ 12 = 100 / 103"
proof -
  have "((1 + 3 / 100 :: real) powr (1 / 12)) ^ 12 = ((1 + 3 / 100) powr (1 / 12)) powr (real (12::nat))"
    by (subst powr_realpow) simp_all
  also have "\<dots> = (1 + 3 / 100 :: real) powr 1"
    by (simp add: powr_powr)
  finally have e: "((1 + 3 / 100 :: real) powr (1 / 12)) ^ 12 = 103 / 100" by simp
  have "deflD ^ 12 = 1 / ((1 + 3 / 100 :: real) powr (1 / 12)) ^ 12"
    unfolding deflD_def by (simp only: power_divide power_one)
  then show ?thesis unfolding e by simp
qed

lemma deflD_pow_le: "deflD ^ n \<le> 1" and deflD_pow_pos: "0 < deflD ^ n"
  using deflD_bounds by (simp_all add: power_le_one)

lemma likeD_consts:
  assumes "likeD cfg"
  shows "isRateMode cfg" and "monthlySigma cfg = 0" and "0 \<le> monthlyDrift cfg"
    and "monthlyNominalDeflator cfg = deflD" and "0 \<le> taxRate cfg" and "taxRate cfg \<le> 20315 / 100000"
    and "\<not> isContributing_at cfg (Suc n)" and "n < 20 \<Longrightarrow> isWithdrawing_at cfg (Suc n)"
    and "totalYears cfg = 20"
proof -
  show r: "isRateMode cfg" using assms by (simp add: likeD_def isRateMode_def)
  show "monthlySigma cfg = 0" using assms by (simp add: likeD_def monthlySigma_def sigma_def)
  show "0 \<le> monthlyDrift cfg"
    using assms by (simp add: likeD_def monthlyDrift_def mu_def ri_def sigma_def)
  show "monthlyNominalDeflator cfg = deflD"
    using assms r by (simp add: likeD_def monthlyNominalDeflator_def ri_def deflD_def)
  show "0 \<le> taxRate cfg" "taxRate cfg \<le> 20315 / 100000"
    by (simp_all add: taxRate_def TAX_RATE_def)
  show "\<not> isContributing_at cfg (Suc n)" using assms by (simp add: likeD_def isContributing_at_def)
  show "n < 20 \<Longrightarrow> isWithdrawing_at cfg (Suc n)"
    using assms by (simp add: likeD_def isWithdrawing_at_def)
  show "totalYears cfg = 20" using assms by (simp add: likeD_def totalYears_def)
qed

lemma lockD_pos: "likeD cfg \<Longrightarrow> 0 < lockD cfg"
  by (simp add: likeD_def lockD_def)

lemma withdraw_amounts_lower:
  assumes "v > 0" "0 \<le> b" "0 \<le> rate" "rate \<le> R" "0 \<le> base"
    and "withdraw_amounts rate v b base 0 = (n, tx, b', v')"
  shows "n = base" and "0 \<le> b'" and "v - base * (1 + R) \<le> v'"
proof -
  define gr where "gr = (if v > b then (v - b) / v else 0)"
  have gr: "0 \<le> gr" "gr \<le> 1"
    using assms(1,2) by (simp_all add: gr_def)
  have e: "n = base" "tx = base * gr * rate" "b' = b * (1 - min (base / v) 1)"
    "v' = (if v - base - base * gr * rate < 0 then 0 else v - base - base * gr * rate)"
    using assms(5,6) unfolding withdraw_amounts_def Let_def gr_def [symmetric]
    by (auto simp: max_def)
  show "n = base" by (rule e(1))
  have "0 \<le> min (base / v) 1" "min (base / v) 1 \<le> 1" using assms(1,5) by simp_all
  then show "0 \<le> b'" unfolding e(3) using assms(2) by simp
  have "gr * rate \<le> 1 * R"
    using gr assms(3,4) by (intro mult_mono) simp_all
  then have "base * (gr * rate) \<le> base * R"
    using assms(5) by (intro mult_left_mono) simp_all
  then have "v - base * (1 + R) \<le> v - base - base * gr * rate"
    by (simp add: algebra_simps)
  then show "v - base * (1 + R) \<le> v'" unfolding e(4) by simp
qed

lemma invD_step:
  assumes "likeD cfg" "invD cfg s k x" "s + k < 240"
  shows "invD cfg s (Suc k) (path_month cfg False True (deflD ^ (s + k)) cmw z x)"
proof -
  define P where "P = initialAmount cfg"
  define g where "g = exp (monthlyDrift cfg)"
  define L where "L = lockD cfg"
  define m where "m = s + k"
  obtain v b yw iwa where x: "x = (v, b, yw, iwa)" by (cases x) auto
  have P: "2000 \<le> P" using assms(1) by (simp add: likeD_def P_def)
  have g: "1 \<le> g" using likeD_consts(3) [OF assms(1)] by (simp add: g_def)
  have L: "L = P * g * 4 / 100 / 12" "0 < L"
    using lockD_pos [OF assms(1)] by (simp_all add: L_def lockD_def P_def g_def)
  have i: "yw = Some (L * (\<Sum>j<k. deflD ^ (s + j)))" "iwa = Some (if m = 0 then 0 else L)"
    "0 \<le> b" "P * (1 - real m / 248) \<le> v" "m = 0 \<Longrightarrow> v = P"
    using assms(2) by (simp_all add: invD_def x L_def P_def m_def split: if_splits)
  have m: "m < 240" using assms(3) by (simp add: m_def)
  have "0 < P * (1 - real m / 248)" using P m by simp
  then have v: "0 < v" using i(4) by linarith
  then have v1: "0 < v * g" using g by simp
  define I where "I = (if m = 0 then v * g * 4 / 100 / 12 else L)"
  have I: "I = L" using i(5) by (simp add: I_def L(1))
  obtain n tx b' v' where wa:
    "withdraw_amounts (taxRate cfg) (v * g) b (L * deflD ^ m) 0 = (n, tx, b', v')"
    by (cases "withdraw_amounts (taxRate cfg) (v * g) b (L * deflD ^ m) 0") auto
  have lk: "(if isRateMode cfg \<and> (if m = 0 then 0 else L) = 0 then Some (v * g * 4 / 100 / 12)
             else Some (if m = 0 then 0 else L)) = Some L"
  proof (cases "m = 0")
    case True
    then show ?thesis
      using likeD_consts(1) [OF assms(1)] i(5) by (simp add: L(1))
  next
    case False
    then show ?thesis using L(2) by simp
  qed
  have pm: "path_month cfg False True (deflD ^ (s + k)) cmw z x =
            (v', b', Some (L * (\<Sum>j<k. deflD ^ (s + j)) + n), Some L)"
  proof -
    have a: "annualWithdrawalRate cfg = Some 4" "monthlyPensionIncome_d cfg = 0"
      using assms(1) by (simp_all add: likeD_def)
    have e: "v * exp (monthlyDrift cfg + monthlySigma cfg * z) + (if False then monthlyContribution cfg else 0) = v * g"
      "b + (if False then monthlyContribution cfg else 0) = b"
      using likeD_consts(2) [OF assms(1)] by (simp_all add: g_def)
    show ?thesis
      unfolding path_month_def x prod.case Let_def e a i(1,2) option.case lk
      using v1 likeD_consts(1) [OF assms(1)] wa
      by (simp add: m_def)
  qed
  have base: "0 \<le> L * deflD ^ m"
    using L(2) deflD_pow_pos [of m] by simp
  note w = withdraw_amounts_lower [OF v1 i(3) likeD_consts(5,6) [OF assms(1)] base wa]
  have "L * deflD ^ m \<le> L * 1"
    using L(2) deflD_pow_le [of m] by (intro mult_left_mono) simp_all
  then have "L * deflD ^ m * (1 + 20315 / 100000) \<le> L * (1 + 20315 / 100000)"
    by simp
  also have "\<dots> \<le> g * (P / 248)"
    using P g by (simp add: L(1))
  finally have s1: "v * g - g * (P / 248) \<le> v'" using w(3) by simp
  have eq: "P * (1 - real (Suc m) / 248) = P * (1 - real m / 248) - P / 248"
    by (simp add: field_simps)
  have "0 \<le> P * (1 - real (Suc m) / 248)" using P m by simp
  then have "0 \<le> v - P / 248" using i(4) eq by linarith
  then have "1 * (v - P / 248) \<le> g * (v - P / 248)"
    using g by (intro mult_right_mono) simp_all
  then have s2: "v - P / 248 \<le> v * g - g * (P / 248)"
    by (simp add: right_diff_distrib mult.commute)
  have v': "P * (1 - real (Suc m) / 248) \<le> v'"
    unfolding eq using s1 s2 i(4) by linarith
  have y: "L * (\<Sum>j<k. deflD ^ (s + j)) + n = L * (\<Sum>j<Suc k. deflD ^ (s + j))"
    by (simp add: w(1) m_def distrib_left)
  have "invD cfg s (Suc k) (v', b', Some (L * (\<Sum>j<Suc k. deflD ^ (s + j))), Some L)"
    using v' w(2) unfolding invD_def prod.case L_def P_def m_def by simp
  then show ?thesis unfolding pm y .
qed

lemma path_view_month_begin [simp]: "path_view j (month_begin cfg w st) = path_view j st"
  by (simp add: path_view_def)

lemma month_begin_D:
  assumes "likeD cfg" "stateD cfg s k st"
  shows "rateDeflationMultiplier (month_begin cfg True st) = deflD ^ (s + k)"
    and "rateWithdrawalStarted (month_begin cfg True st)"
proof -
  have r: "isRateMode cfg" "monthlyNominalDeflator cfg = deflD"
    using likeD_consts(1,4) [OF assms(1)] by simp_all
  have st: "rateWithdrawalStarted st = (s + k > 0)"
    "rateDeflationMultiplier st = (if s + k = 0 then 1 else deflD ^ (s + k - 1))"
    using assms(2) by (simp_all add: stateD_def)
  show "rateDeflationMultiplier (month_begin cfg True st) = deflD ^ (s + k)"
  proof (cases "s + k")
    case 0
    then show ?thesis using r st by (simp add: month_begin_def Let_def)
  next
    case (Suc m)
    then show ?thesis using r st by (simp add: month_begin_def Let_def)
  qed
  show "rateWithdrawalStarted (month_begin cfg True st)"
    using r by (simp add: month_begin_def Let_def)
qed

lemma month_step_D:
  assumes "likeD cfg" "stateD cfg s k st" "s + k < 240"
  shows "stateD cfg s (Suc k) (month_step cfg False True st)"
proof -
  let ?b = "month_begin cfg True st"
  let ?f = "fold (path_step cfg False True) [0..<NUM_SIMULATIONS] ?b"
  have wf: "wf_state ?b" using assms(2) by (simp add: stateD_def)
  have pre: "\<forall>j < NUM_SIMULATIONS. invD cfg s k (path_view j ?b)"
    using assms(2) by (simp add: stateD_def list_all_iff)
  have step: "invD cfg s (Suc k)
       (path_month cfg False True (rateDeflationMultiplier ?b) (currentMonthlyWithdrawal ?b) z x)"
    if "invD cfg s k x" for z x
    unfolding month_begin_D(1) [OF assms(1,2)] by (rule invD_step [OF assms(1) that assms(3)])
  have post: "\<forall>j < NUM_SIMULATIONS. invD cfg s (Suc k) (path_view j ?f)"
    by (rule paths_loop_views [OF wf pre]) (rule step)
  have e: "month_step cfg False True st = ?f" by (simp add: month_step_def Let_def)
  have "wf_state ?f" by (rule wf_paths_loop [OF wf])
  moreover have "rateWithdrawalStarted ?f" "rateDeflationMultiplier ?f = deflD ^ (s + k)"
    using month_begin_D [OF assms(1,2)] by simp_all
  ultimately show ?thesis
    unfolding e stateD_def using post by (simp add: list_all_iff)
qed

lemma months_D:
  assumes "likeD cfg" "stateD cfg s 0 st" "s + k \<le> 240"
  shows "stateD cfg s k (fold (\<lambda>month. month_step cfg False True) [0..<k] st)"
  using assms(3)
proof (induction k)
  case 0
  then show ?case using assms(2) by simp
next
  case (Suc k)
  then have "stateD cfg s k (fold (\<lambda>month. month_step cfg False True) [0..<k] st)" by simp
  from month_step_D [OF assms(1) this] Suc.prems show ?case by simp
qed

lemma stateD_upd [simp]:
  "stateD cfg s k (st\<lparr> sorted_arr := srt \<rparr>) = stateD cfg s k st"
  "stateD cfg s k (st\<lparr> yearlyData_acc := acc \<rparr>) = stateD cfg s k st"
  by (simp_all add: stateD_def wf_state_def path_view_def)

lemma reset_D:
  assumes "stateD cfg s 12 st"
  shows "stateD cfg (s + 12) 0
           (st\<lparr> yearlyWithdrawals := map_option (map (\<lambda>_. 0)) (yearlyWithdrawals st) \<rparr>)"
proof -
  let ?r = "st\<lparr> yearlyWithdrawals := map_option (map (\<lambda>_. 0)) (yearlyWithdrawals st) \<rparr>"
  have wf: "wf_state st" using assms by (simp add: stateD_def)
  then have wr: "wf_state ?r" by (auto simp: wf_state_def split: option.splits)
  have "invD cfg (s + 12) 0 (path_view j ?r)" if j: "j < NUM_SIMULATIONS" for j
  proof -
    have i: "invD cfg s 12 (path_view j st)"
      using assms j by (simp add: stateD_def list_all_iff)
    then obtain a where a: "yearlyWithdrawals st = Some a"
      by (cases "yearlyWithdrawals st") (auto simp: invD_def path_view_def)
    then have "length a = NUM_SIMULATIONS" using wf by (simp add: wf_state_def)
    then have "map (\<lambda>_. 0) a ! j = (0::real)" using j by simp
    then show ?thesis
      using i a by (simp add: invD_def path_view_def)
  qed
  then show ?thesis
    using assms wr by (simp add: stateD_def list_all_iff)
qed

lemma run_months_Suc_year:
  "run_months cfg (Suc n) 0 =
     (run_years cfg (Suc n))\<lparr> yearlyWithdrawals :=
        map_option (map (\<lambda>_. 0)) (yearlyWithdrawals (run_years cfg (Suc n))) \<rparr>"
  by (simp add: run_months_def)

lemma run_years_months:
  "run_years cfg (Suc n) =
     (run_months cfg n 12)\<lparr> sorted_arr := sort (paths (run_months cfg n 12)),
        yearlyData_acc := yearlyData_acc (run_months cfg n 12) @
          [snapshot cfg (Suc n) (year_body cfg (Suc n) (run_years cfg n))] \<rparr>"
  by (simp add: run_years_Suc year_step_def Let_def year_body_months)

lemma run_months_D:
  assumes "likeD cfg" "n < 20" "k \<le> 12"
  shows "stateD cfg (12 * n) k (run_months cfg n k)"
proof -
  have start: "stateD cfg (12 * n) 0 (run_months cfg n 0)" if "n < 20" for n
    using that
  proof (induction n)
    case 0
    have r: "isRateMode cfg" by (rule likeD_consts(1) [OF assms(1)])
    have "0 \<le> initialAmount cfg" using assms(1) by (simp add: likeD_def)
    then show ?case
      using r
      by (simp add: run_months_def run_years_0 init_state_def stateD_def wf_state_def
            list_all_iff path_view_def invD_def)
  next
    case (Suc n)
    then have s0: "stateD cfg (12 * n) 0 (run_months cfg n 0)" by simp
    have c: "isContributing_at cfg (Suc n) = False" "isWithdrawing_at cfg (Suc n) = True"
      using likeD_consts(7,8) [OF assms(1), of n] Suc.prems by simp_all
    have "12 * n + 12 \<le> 240" using Suc.prems by simp
    from months_D [OF assms(1) s0 this]
    have "stateD cfg (12 * n) 12 (run_months cfg n 12)"
      by (simp add: run_months_def c)
    then have "stateD cfg (12 * n) 12 (run_years cfg (Suc n))"
      by (simp add: run_years_months)
    from reset_D [OF this] show ?case
      by (simp add: run_months_Suc_year add.commute)
  qed
  have c: "isContributing_at cfg (Suc n) = False" "isWithdrawing_at cfg (Suc n) = True"
    using likeD_consts(7,8) [OF assms(1), of n] assms(2) by simp_all
  have "12 * n + k \<le> 240" using assms(2,3) by simp
  from months_D [OF assms(1) start [OF assms(2)] this]
  show ?thesis by (simp add: run_months_def c)
qed

lemma snapshot_median:
  "medianYearlyWithdrawal (snapshot cfg y st) =
     (if isWithdrawing_at cfg y
      then map_option (\<lambda>yw. js_round (sort yw ! 2500)) (yearlyWithdrawals st)
      else None)"
  by (simp add: snapshot_def Let_def)

lemma yearlyWithdrawals_year_body:
  "yearlyWithdrawals (year_body cfg (Suc n) (run_years cfg n)) = yearlyWithdrawals (run_months cfg n 12)"
  by (simp add: year_body_months)

lemma median_D:
  assumes "likeD cfg" "n < 20"
  shows "medianYearlyWithdrawal (yearlyData (simulateMonteCarlo cfg) ! Suc n) =
         Some (js_round (lockD cfg * (\<Sum>j<12. deflD ^ (12 * n + j))))"
proof -
  define W where "W = lockD cfg * (\<Sum>j<12. deflD ^ (12 * n + j))"
  have st: "stateD cfg (12 * n) 12 (run_months cfg n 12)"
    by (rule run_months_D [OF assms]) simp
  have wf: "wf_state (run_months cfg n 12)" using st by (simp add: stateD_def)
  have v: "invD cfg (12 * n) 12 (path_view j (run_months cfg n 12))" if "j < NUM_SIMULATIONS" for j
    using st that by (simp add: stateD_def list_all_iff)
  from v [of 0] obtain a where a: "yearlyWithdrawals (run_months cfg n 12) = Some a"
    by (cases "yearlyWithdrawals (run_months cfg n 12)")
       (auto simp: invD_def path_view_def NUM_SIMULATIONS_def)
  have len: "length a = NUM_SIMULATIONS" using wf a by (simp add: wf_state_def)
  have "a ! j = W" if "j < NUM_SIMULATIONS" for j
    using v [OF that] a by (simp add: invD_def path_view_def W_def)
  then have "a = replicate NUM_SIMULATIONS W"
    using len by (intro replicate_eqI) (auto simp: in_set_conv_nth)
  then have m: "sort a ! 2500 = W" by (simp add: NUM_SIMULATIONS_def)
  have t: "totalYears cfg = 20" by (rule likeD_consts(9) [OF assms(1)])
  have w: "isWithdrawing_at cfg (Suc n)" by (rule likeD_consts(8) [OF assms])
  have "yearlyData (simulateMonteCarlo cfg) ! Suc n =
        snapshot cfg (Suc n) (year_body cfg (Suc n) (run_years cfg n))"
    using acc_nth [of "Suc n" 20 cfg] assms(2) by (simp add: t)
  then show ?thesis
    unfolding W_def [symmetric]
    by (simp add: snapshot_median w yearlyWithdrawals_year_body a m)
qed

lemma js_round_strict: "x + 1 \<le> y \<Longrightarrow> js_round x < js_round y"
proof -
  assume "x + 1 \<le> y"
  then have "\<lfloor>x + 1 / 2\<rfloor> + 1 \<le> \<lfloor>y + 1 / 2\<rfloor>"
    by (simp add: le_floor_iff) linarith
  then show ?thesis by (simp add: js_round_def)
qed

lemma yearly_total_D:
  "lockD cfg * (\<Sum>j<12. deflD ^ (12 * n + j)) =
   lockD cfg * (\<Sum>j<12. deflD ^ j) * (100 / 103) ^ n"
proof -
  have "deflD ^ (12 * n + j) = (100 / 103) ^ n * deflD ^ j" for j
    by (simp add: power_add power_mult deflD_12)
  then have "(\<Sum>j<12. deflD ^ (12 * n + j)) = (\<Sum>j<12. (100 / 103) ^ n * deflD ^ j)"
    by simp
  also have "\<dots> = (100 / 103) ^ n * (\<Sum>j<12. deflD ^ j)"
    by (rule sum_distrib_left [symmetric])
  finally show ?thesis by simp
qed

lemma base_total_D:
  assumes "likeD cfg"
  shows "8000 / 103 \<le> lockD cfg * (\<Sum>j<12. deflD ^ j)"
proof -
  have "deflD ^ 12 \<le> deflD ^ j" if "j < 12" for j
    using deflD_bounds that by (intro power_decreasing) simp_all
  then have "(\<Sum>j<(12::nat). deflD ^ 12) \<le> (\<Sum>j<12. deflD ^ j)"
    by (intro sum_mono) simp
  then have s: "1200 / 103 \<le> (\<Sum>j<12. deflD ^ j)"
    by (simp add: deflD_12)
  have "1 \<le> exp (monthlyDrift cfg)" using likeD_consts(3) [OF assms] by simp
  moreover have "2000 \<le> initialAmount cfg" using assms by (simp add: likeD_def)
  ultimately have "2000 * 1 \<le> initialAmount cfg * exp (monthlyDrift cfg)"
    by (intro mult_mono) simp_all
  then have l: "20 / 3 \<le> lockD cfg" by (simp add: lockD_def)
  have "20 / 3 * (1200 / 103) \<le> lockD cfg * (\<Sum>j<12. deflD ^ j)"
    using l s by (intro mult_mono) simp_all
  then show ?thesis by simp
qed

lemma yearly_total_decreases:
  assumes "likeD cfg" "n < n'" "n' < 20"
  shows "lockD cfg * (\<Sum>j<12. deflD ^ (12 * n' + j)) + 1
         \<le> lockD cfg * (\<Sum>j<12. deflD ^ (12 * n + j))"
proof -
  define T where "T = lockD cfg * (\<Sum>j<12. deflD ^ j)"
  define q :: real where "q = 100 / 103"
  have T: "8000 / 103 \<le> T" unfolding T_def by (rule base_total_D [OF assms(1)])
  have q: "0 \<le> q" "q \<le> 1" by (simp_all add: q_def)
  have "q ^ n' \<le> q ^ Suc n"
    using q assms(2) by (intro power_decreasing) simp_all
  then have a: "q ^ n - q ^ Suc n \<le> q ^ n - q ^ n'" by simp
  have "q ^ n - q ^ Suc n = q ^ n * (1 - q)" by (simp add: algebra_simps)
  then have b: "q ^ n - q ^ Suc n = q ^ n * (3 / 103)" by (simp add: q_def)
  have "q ^ 19 \<le> q ^ n"
    using q assms(2,3) by (intro power_decreasing) simp_all
  then have "q ^ 19 * (3 / 103) \<le> q ^ n * (3 / 103)"
    by (intro mult_right_mono) simp_all
  also have "\<dots> \<le> q ^ n - q ^ n'" using a unfolding b .
  finally have d: "q ^ 19 * (3 / 103) \<le> q ^ n - q ^ n'" .
  have "8000 / 103 * (q ^ 19 * (3 / 103)) \<le> T * (q ^ n - q ^ n')"
    using T d q by (intro mult_mono) simp_all
  moreover have "(10609::real) \<le> 24000 * (100 / 103) ^ 19"
    by (simp add: power_divide)
  then have "1 \<le> 8000 / 103 * (q ^ 19 * (3 / 103))"
    by (simp add: q_def)
  ultimately have "T * q ^ n' + 1 \<le> T * q ^ n"
    by (simp add: algebra_simps)
  then show ?thesis
    by (simp add: yearly_total_D T_def q_def)
qed

lemma likeD_median_decreases:
  assumes "likeD cfg" and "1 \<le> y" and "y < y'" and "y' \<le> 20"
  shows "\<exists>a b. medianYearlyWithdrawal (yearlyData (simulateMonteCarlo cfg) ! y) = Some a \<and>
               medianYearlyWithdrawal (yearlyData (simulateMonteCarlo cfg) ! y') = Some b \<and>
               b < a"
proof -
  obtain n n' where n: "y = Suc n" "y' = Suc n'" "n < n'" "n' < 20"
    using assms(2-4) by (cases y; cases y') auto
  have "js_round (lockD cfg * (\<Sum>j<12. deflD ^ (12 * n' + j)))
        < js_round (lockD cfg * (\<Sum>j<12. deflD ^ (12 * n + j)))"
    by (rule js_round_strict [OF yearly_total_decreases [OF assms(1) n(3,4)]])
  then show ?thesis
    using median_D [OF assms(1), of n] median_D [OF assms(1) n(4)] n by simp
qed

lemma flags_D:
  assumes "likeD cfg"
  shows "map isWithdrawing (yearlyData (simulateMonteCarlo cfg)) = False # replicate 20 True"
proof -
  have t: "totalYears cfg = 20" by (rule likeD_consts(9) [OF assms])
  have w: "isWithdrawing_at cfg y" if "y \<in> set [Suc 0..<21]" for y
  proof -
    from that have "1 \<le> y" "y < 21" by simp_all
    then obtain n where "y = Suc n" "n < 20" by (cases y) auto
    then show ?thesis using likeD_consts(8) [OF assms, of n] by simp
  qed
  have "map (isWithdrawing_at cfg) [Suc 0..<21] = map (\<lambda>y. True) [Suc 0..<21]"
  proof (rule map_cong [OF refl])
    fix y assume "y \<in> set [Suc 0..<21]"
    then show "isWithdrawing_at cfg y = True" using w by simp
  qed
  also have "\<dots> = replicate 20 True"
    by (simp add: map_replicate_const del: upt_Suc)
  finally have m: "map (isWithdrawing_at cfg) [Suc 0..<21] = replicate 20 True" .
  have "map isWithdrawing (yearlyData_acc (run_years cfg 20)) =
        False # map (isWithdrawing_at cfg) [Suc 0..<21]"
    unfolding acc_run_years by (simp add: year0_def comp_def del: upt_Suc)
  then show ?thesis unfolding m by (simp add: t)
qed

text \<open>
  Claim C8. For scenario D (\<open>annualWithdrawalRate = 4\<close>, \<open>inflationRate = 3\<close>,
  \<open>volatility = 0\<close>, \<open>contributionYears = 0\<close>, \<open>withdrawalStartYear = 0\<close>,
  \<open>withdrawalYears = 20\<close>, and the test's \<open>initialAmount = 10000000\<close>,
  \<open>monthlyContribution = 0\<close>, \<open>annualReturnRate = 5\<close>) the snapshot of year 0 is not
  withdrawing and those of the years 1 to 20 are, and the reported
  \<open>medianYearlyWithdrawal\<close> of the first withdrawing year is strictly above that of the
  last. (\<open>likeD_median_decreases\<close> above: the same between any two withdrawing years.)
\<close>

theorem C8_scenarioD_median_decreases:
  "map isWithdrawing (yearlyData (simulateMonteCarlo scenarioD)) = False # replicate 20 True \<and>
   (\<exists>a b. medianYearlyWithdrawal (yearlyData (simulateMonteCarlo scenarioD) ! 1) = Some a \<and>
          medianYearlyWithdrawal (yearlyData (simulateMonteCarlo scenarioD) ! 20) = Some b \<and>
          b < a)"
proof -
  have D: "likeD scenarioD"
    by (simp add: likeD_def scenarioD_def expenseRatio_d_def monthlyPensionIncome_d_def)
  have "js_round (lockD scenarioD * (\<Sum>j<12. deflD ^ (12 * 19 + j)))
        < js_round (lockD scenarioD * (\<Sum>j<12. deflD ^ (12 * 0 + j)))"
    by (rule js_round_strict [OF yearly_total_decreases [OF D]]) simp_all
  then have "\<exists>a b. medianYearlyWithdrawal (yearlyData (simulateMonteCarlo scenarioD) ! 1) = Some a \<and>
          medianYearlyWithdrawal (yearlyData (simulateMonteCarlo scenarioD) ! 20) = Some b \<and>
          b < a"
    using median_D [OF D, of 0] median_D [OF D, of 19] by simp
  then show ?thesis using flags_D [OF D] by blast
qed

end
